theory Spec2Isabelle
  imports Complex_Main "HOL-Library.Word" "HOL-Library.Multiset" "HOL-Library.Log_Nat"
begin

unbundle bit_operations_syntax

section \<open>POPBAM: consensus calls, site classification and window statistics\<close>

text \<open>
  A shallow embedding of the functions of \<^verbatim>\<open>pop_utils.cpp\<close>, \<^verbatim>\<open>pop_ld.cpp\<close> and
  \<^verbatim>\<open>pop_sfs.cpp\<close>. The packed consensus call (\<^verbatim>\<open>unsigned long long\<close>) is a 64-bit word,
  arrays are lists, and every function that writes through a pointer returns the
  updated array.

  Numbers. A finite C \<^verbatim>\<open>float\<close> or \<^verbatim>\<open>double\<close> value is a real number. In \<open>gl2cns\<close>,
  where a difference of two \<^verbatim>\<open>float\<close>s is truncated to an integer, the operations
  round their results as IEEE 754 does (\<open>float_round\<close>, \<open>double_round\<close>). The window
  statistics are modelled without rounding; where the source can divide by zero
  (the LD and SFS statistics) the value is a \<open>dbl\<close>: a finite real, plus or minus
  infinity, or NaN, with the IEEE 754 rules for the special values. Signed zeros are
  not distinguished (every zero is +0; the statistics modelled here never produce a
  negative number).
\<close>

subsection \<open>Doubles with infinities and NaN\<close>

datatype dbl = Fin real | PInf | NInf | NaN

fun dadd :: "dbl \<Rightarrow> dbl \<Rightarrow> dbl" where
  "dadd NaN _ = NaN"
| "dadd _ NaN = NaN"
| "dadd (Fin a) (Fin b) = Fin (a + b)"
| "dadd PInf NInf = NaN"
| "dadd NInf PInf = NaN"
| "dadd PInf _ = PInf"
| "dadd _ PInf = PInf"
| "dadd NInf _ = NInf"
| "dadd _ NInf = NInf"

fun dneg :: "dbl \<Rightarrow> dbl" where
  "dneg (Fin a) = Fin (- a)"
| "dneg PInf = NInf"
| "dneg NInf = PInf"
| "dneg NaN = NaN"

text \<open>Sign of a non-NaN value: \<open>1\<close>, \<open>0\<close> or \<open>-1\<close>.\<close>

fun dsgn :: "dbl \<Rightarrow> int" where
  "dsgn (Fin a) = (if a > 0 then 1 else if a < 0 then - 1 else 0)"
| "dsgn PInf = 1"
| "dsgn NInf = - 1"
| "dsgn NaN = 0"

definition dinf :: "int \<Rightarrow> dbl" where
  "dinf s = (if s > 0 then PInf else if s < 0 then NInf else NaN)"

fun dmul :: "dbl \<Rightarrow> dbl \<Rightarrow> dbl" where
  "dmul NaN _ = NaN"
| "dmul _ NaN = NaN"
| "dmul (Fin a) (Fin b) = Fin (a * b)"
| "dmul x y = dinf (dsgn x * dsgn y)"

fun ddiv :: "dbl \<Rightarrow> dbl \<Rightarrow> dbl" where
  "ddiv NaN _ = NaN"
| "ddiv _ NaN = NaN"
| "ddiv (Fin a) (Fin b) = (if b = 0 then dinf (dsgn (Fin a)) else Fin (a / b))"
| "ddiv (Fin a) _ = Fin 0"
| "ddiv x (Fin b) = (if b < 0 then dneg x else x)"
| "ddiv _ _ = NaN"

text \<open>\<open>a > b\<close> on doubles: false as soon as one side is NaN.\<close>

fun dgt :: "dbl \<Rightarrow> dbl \<Rightarrow> bool" where
  "dgt NaN _ = False"
| "dgt _ NaN = False"
| "dgt (Fin a) (Fin b) = (a > b)"
| "dgt PInf PInf = False"
| "dgt PInf _ = True"
| "dgt _ PInf = False"
| "dgt NInf _ = False"
| "dgt _ NInf = True"

fun dsqrt :: "dbl \<Rightarrow> dbl" where
  "dsqrt (Fin a) = (if a < 0 then NaN else Fin (sqrt a))"
| "dsqrt PInf = PInf"
| "dsqrt NInf = NaN"
| "dsqrt NaN = NaN"

fun isnan :: "dbl \<Rightarrow> bool" where
  "isnan NaN = True"
| "isnan _ = False"

subsection \<open>Constants and macros of the headers\<close>

text \<open>
  Modelled from the spec: \<^verbatim>\<open>popbam.h\<close> and \<^verbatim>\<open>tables.h\<close> are not among the sources. The
  spec fixes a 4-symbol base alphabet (\<open>NBASES\<close>), the binomial coefficient
  "choose 2" (\<open>BINOM\<close>), the square (\<open>SQ\<close>, used on 64-bit unsigned values, where it
  wraps), the count of set bits of a 64-bit vector (\<open>bitcount64\<close>, the sum of the
  binary digits of its value) and the test of one bit (\<open>CHECK_BIT\<close>). \<open>CHAR_BIT\<close> is 8 and \<open>FLT_MAX\<close> the largest finite \<^verbatim>\<open>float\<close>.
\<close>

definition NBASES :: nat where
  "NBASES = 4"

definition FLT_MAX :: real where
  "FLT_MAX = 340282346638528859811704183484516925440"

definition SQ :: "64 word \<Rightarrow> 64 word" where
  "SQ x = x * x"

definition BINOM :: "int \<Rightarrow> int" where
  "BINOM x = x * (x - 1) div 2"

fun bitcount :: "nat \<Rightarrow> nat" where
  "bitcount n = (if n = 0 then 0 else n mod 2 + bitcount (n div 2))"

declare bitcount.simps [simp del]

definition bitcount64 :: "64 word \<Rightarrow> nat" where
  "bitcount64 w = bitcount (unat w)"

definition CHECK_BIT :: "64 word \<Rightarrow> nat \<Rightarrow> 64 word" where
  "CHECK_BIT var pos = var AND push_bit pos 1"

subsection \<open>The packed consensus call\<close>

text \<open>
  The fields of a call word, as the header comment of \<^verbatim>\<open>pop_utils.cpp\<close> lays them out
  and as \<open>qualFilter\<close>, \<open>segBase\<close> and \<open>cleanHeterozygotes\<close> read them.
\<close>

type_synonym callword = "64 word"

definition cw_genotype :: "callword \<Rightarrow> 64 word" where
  "cw_genotype cb = drop_bit 8 cb AND 0xff"

definition cw_num_reads :: "callword \<Rightarrow> 64 word" where
  "cw_num_reads cb = drop_bit 16 cb AND 0xffff"

definition cw_snp_quality :: "callword \<Rightarrow> 64 word" where
  "cw_snp_quality cb = drop_bit 32 cb AND 0xffff"

definition cw_rms :: "callword \<Rightarrow> 64 word" where
  "cw_rms cb = drop_bit 48 cb AND 0xffff"

subsection \<open>\<open>gl2cns\<close>: likelihoods to a call word\<close>

text \<open>
  The double loop \<^verbatim>\<open>for (i = 0; i < NBASES; ++i) for (j = i; j < NBASES; ++j)\<close> visits
  the index pairs \<open>gl2cns_pairs\<close> in this order; the loop state is
  \<open>(min_ij, min, min_next)\<close>.
\<close>

definition gl2cns_pairs :: "(nat \<times> nat) list" where
  "gl2cns_pairs = concat (map (\<lambda>i. map (\<lambda>j. (i, j)) [i..<NBASES]) [0..<NBASES])"

definition gl2cns_index :: "nat \<times> nat \<Rightarrow> nat" where
  "gl2cns_index ij = push_bit 2 (fst ij) OR snd ij"

fun gl2cns_step :: "real list \<Rightarrow> nat \<times> real \<times> real \<Rightarrow> nat \<times> nat \<Rightarrow> nat \<times> real \<times> real" where
  "gl2cns_step q (min_ij, mn, min_next) ij =
     (let likelihood = q ! gl2cns_index ij in
      if likelihood < mn then (gl2cns_index ij, likelihood, mn)
      else if likelihood < min_next then (min_ij, mn, likelihood)
      else (min_ij, mn, min_next))"

definition gl2cns_scan :: "real list \<Rightarrow> nat \<times> real \<times> real" where
  "gl2cns_scan q = foldl (gl2cns_step q) (0, FLT_MAX, FLT_MAX) gl2cns_pairs"

text \<open>
  Rounding to a binary floating-point format with \<open>p\<close> bits of precision and least
  exponent \<open>emin\<close>, to the nearest number of the format, ties to the even one.
  \<open>ilog2 x\<close> is the exponent \<open>e\<close> of \<open>x > 0\<close>, with \<open>2^e \<le> x < 2^(e+1)\<close> (\<open>bitlen m\<close> is
  the number of binary digits of the integer \<open>m\<close>); the numbers of
  the format with this exponent (with exponent \<open>emin\<close> and below, for the subnormal
  ones) are the integer multiples of \<open>2^(e - p + 1)\<close>. The largest finite number of the
  format is not looked at: a result beyond it stands for an infinity.
\<close>

definition ilog2 :: "real \<Rightarrow> int" where
  "ilog2 x = (if 1 \<le> x then bitlen \<lfloor>x\<rfloor> - 1 else - bitlen (\<lceil>1 / x\<rceil> - 1))"

definition round_even :: "real \<Rightarrow> int" where
  "round_even x =
     (let f = \<lfloor>x\<rfloor>; d = x - of_int f
      in if d < 1 / 2 then f else if 1 / 2 < d then f + 1 else if even f then f else f + 1)"

definition ieee_round :: "nat \<Rightarrow> int \<Rightarrow> real \<Rightarrow> real" where
  "ieee_round p emin x =
     (if x = 0 then 0
      else let e = max (ilog2 \<bar>x\<bar>) emin; ulp = power_int 2 (e - int p + 1)
           in of_int (round_even (x / ulp)) * ulp)"

definition float_round :: "real \<Rightarrow> real" where
  "float_round = ieee_round 24 (- 126)"

definition double_round :: "real \<Rightarrow> real" where
  "double_round = ieee_round 53 (- 1022)"

text \<open>
  \<^verbatim>\<open>(min_next - min) + 0.499\<close>: the difference of the two \<^verbatim>\<open>float\<close>s is a \<^verbatim>\<open>float\<close>; the
  constant is a \<^verbatim>\<open>double\<close>, and so is the sum.
\<close>

definition gl2cns_rounded :: "real list \<Rightarrow> real" where
  "gl2cns_rounded q = (case gl2cns_scan q of (min_ij, mn, min_next) \<Rightarrow>
     double_round (float_round (min_next - mn) + double_round (499 / 1000)))"

text \<open>
  \<^verbatim>\<open>(unsigned long long)(...)\<close>: the conversion truncates. The value is never negative
  (\<open>min \<le> min_next\<close> throughout the loop), so truncation is the floor. C defines the
  conversion only for a value below \<open>2^64\<close> (an infinity is not); \<open>None\<close> elsewhere.
\<close>

definition gl2cns_gap :: "real list \<Rightarrow> int option" where
  "gl2cns_gap q = (if gl2cns_rounded q < 2 ^ 64 then Some \<lfloor>gl2cns_rounded q\<rfloor> else None)"

text \<open>The three shifts and the sum that \<open>gl2cns\<close> returns.\<close>

definition gl2cns_pack :: "int \<Rightarrow> 16 word \<Rightarrow> nat \<Rightarrow> callword" where
  "gl2cns_pack gap k min_ij =
     (let snp_quality = push_bit 32 (of_int gap :: 64 word);
          num_reads = push_bit 16 (ucast k :: 64 word);
          genotype = push_bit 8 (of_nat min_ij :: 64 word)
      in snp_quality + num_reads + genotype)"

definition gl2cns :: "real list \<Rightarrow> 16 word \<Rightarrow> callword option" where
  "gl2cns q k =
     (case gl2cns_gap q of
        None \<Rightarrow> None
      | Some gap \<Rightarrow> Some (gl2cns_pack gap k (fst (gl2cns_scan q))))"

text \<open>The ten costs the loop reads, in the order it reads them.\<close>

definition gl2cns_costs :: "real list \<Rightarrow> real list" where
  "gl2cns_costs q = map (\<lambda>ij. q ! gl2cns_index ij) gl2cns_pairs"

subsection \<open>\<open>qualFilter\<close>\<close>

text \<open>
  The array \<open>cb\<close> holds one call word per sample; \<open>num_samples\<close> is its length at every
  call site. The state of the loop is the array and the coverage mask.
\<close>

definition qualFilter_step ::
  "int \<Rightarrow> int \<Rightarrow> int \<Rightarrow> callword list \<times> 64 word \<Rightarrow> nat \<Rightarrow> callword list \<times> 64 word" where
  "qualFilter_step min_rmsQ min_depth max_depth s i =
     (case s of (cb, coverage) \<Rightarrow>
        let rms = uint (cw_rms (cb ! i));
            num_reads = uint (cw_num_reads (cb ! i))
        in if rms \<ge> min_rmsQ \<and> num_reads \<ge> min_depth \<and> num_reads \<le> max_depth
           then (cb[i := cb ! i OR 1], coverage OR push_bit i 1)
           else (cb, coverage))"

definition qualFilter ::
  "nat \<Rightarrow> callword list \<Rightarrow> int \<Rightarrow> int \<Rightarrow> int \<Rightarrow> 64 word \<times> callword list" where
  "qualFilter num_samples cb min_rmsQ min_depth max_depth =
     (case foldl (qualFilter_step min_rmsQ min_depth max_depth) (cb, 0) [0..<num_samples] of
        (cb', coverage) \<Rightarrow> (coverage, cb'))"

subsection \<open>\<open>segBase\<close>: is the site segregating?\<close>

text \<open>
  The tables \<open>iupac\<close> (genotype code to IUPAC character) and \<open>iupac_rev\<close> (character to
  base code) live in \<^verbatim>\<open>tables.h\<close>, which is not among the sources: both are parameters.
  The genotype byte and the two alleles are read as the source reads them:
  \<open>allele1\<close> is bits 2-3 of the genotype byte, \<open>allele2\<close> bits 0-1.
\<close>

definition cw_allele1 :: "callword \<Rightarrow> nat" where
  "cw_allele1 cb = unat (drop_bit 2 (cw_genotype cb) AND 3)"

definition cw_allele2 :: "callword \<Rightarrow> nat" where
  "cw_allele2 cb = unat (cw_genotype cb AND 3)"

text \<open>
  \<^verbatim>\<open>cb[i] -= (genotype-iupac_rev[(int)ref]) << CHAR_BIT\<close>: the difference is an \<^verbatim>\<open>int\<close>,
  shifted as an \<^verbatim>\<open>int\<close> and converted to 64 bits (sign-extended) by the compound
  assignment.
\<close>

definition shl_int :: "int \<Rightarrow> nat \<Rightarrow> 64 word" where
  "shl_int d n = word_of_int (d * 2 ^ n)"

definition segBase_tallied :: "(nat \<Rightarrow> char) \<Rightarrow> char \<Rightarrow> int \<Rightarrow> callword \<Rightarrow> bool" where
  "segBase_tallied iupac ref min_snpq c =
     (cw_allele1 c = cw_allele2 c \<and> iupac (unat (cw_genotype c)) \<noteq> ref
        \<and> uint (cw_snp_quality c) \<ge> min_snpq)"

definition segBase_reverted :: "(nat \<Rightarrow> char) \<Rightarrow> char \<Rightarrow> int \<Rightarrow> callword \<Rightarrow> bool" where
  "segBase_reverted iupac ref min_snpq c =
     (cw_allele1 c = cw_allele2 c \<and> iupac (unat (cw_genotype c)) \<noteq> ref
        \<and> uint (cw_snp_quality c) < min_snpq)"

definition segBase_step ::
  "(nat \<Rightarrow> char) \<Rightarrow> (char \<Rightarrow> int) \<Rightarrow> char \<Rightarrow> int \<Rightarrow>
     callword list \<times> int list \<Rightarrow> nat \<Rightarrow> callword list \<times> int list" where
  "segBase_step iupac iupac_rev ref min_snpq s i =
     (case s of (cb, baseCount) \<Rightarrow>
        let c = cb ! i; allele1 = cw_allele1 c in
        if segBase_tallied iupac ref min_snpq c
        then (cb[i := c OR 2], baseCount[allele1 := baseCount ! allele1 + 1])
        else if segBase_reverted iupac ref min_snpq c
        then (let d = uint (cw_genotype c) - iupac_rev ref
              in (cb[i := c - shl_int d 8 - shl_int d 10], baseCount))
        else (cb, baseCount))"

text \<open>The check of the infinite-sites model: \<open>j\<close> counts the bases seen, \<open>k\<close> is the last.\<close>

definition segBase_check_step :: "int list \<Rightarrow> nat \<times> nat \<Rightarrow> nat \<Rightarrow> nat \<times> nat" where
  "segBase_check_step baseCount s i =
     (case s of (j, k) \<Rightarrow> if baseCount ! i > 0 then (j + 1, i) else (j, k))"

definition segBase ::
  "(nat \<Rightarrow> char) \<Rightarrow> (char \<Rightarrow> int) \<Rightarrow> nat \<Rightarrow> callword list \<Rightarrow> char \<Rightarrow> int
     \<Rightarrow> int \<times> callword list" where
  "segBase iupac iupac_rev num_samples cb ref min_snpq =
     (case foldl (segBase_step iupac iupac_rev ref min_snpq) (cb, replicate NBASES 0)
             [0..<num_samples] of
        (cb', baseCount) \<Rightarrow>
          (case foldl (segBase_check_step baseCount) (0, 0) [0..<NBASES] of
             (j, k) \<Rightarrow> (if j > 1 then - 1 else baseCount ! k, cb')))"

subsection \<open>\<open>cleanHeterozygotes\<close>\<close>

text \<open>
  The two \<^verbatim>\<open>if\<close> statements of the loop body test the alleles and the quality read
  before either of them writes, so they are evaluated on the same values; inside
  each, the two inner \<^verbatim>\<open>if\<close>s write one after the other.
\<close>

definition cleanHet_call :: "(char \<Rightarrow> int) \<Rightarrow> char \<Rightarrow> int \<Rightarrow> callword \<Rightarrow> callword" where
  "cleanHet_call iupac_rev ref min_snpq c =
     (let allele1 = int (cw_allele1 c);
          allele2 = int (cw_allele2 c);
          snp_quality = uint (cw_snp_quality c);
          c1 = (if allele1 \<noteq> allele2 \<and> snp_quality \<ge> min_snpq
                then (let a = (if allele1 = iupac_rev ref
                               then c + shl_int (allele2 - allele1) 10 else c)
                      in if allele2 = iupac_rev ref
                         then a - shl_int (allele2 - allele1) 8 else a)
                else c)
      in if allele1 \<noteq> allele2 \<and> snp_quality < min_snpq
         then (let a = (if allele1 \<noteq> iupac_rev ref
                        then c1 + shl_int (allele2 - allele1) 10 else c1)
               in if allele2 \<noteq> iupac_rev ref
                  then a - shl_int (allele2 - allele1) 8 else a)
         else c1)"

definition cleanHeterozygotes ::
  "(char \<Rightarrow> int) \<Rightarrow> nat \<Rightarrow> callword list \<Rightarrow> char \<Rightarrow> int \<Rightarrow> callword list" where
  "cleanHeterozygotes iupac_rev num_samples cb ref min_snpq =
     foldl (\<lambda>cb i. cb[i := cleanHet_call iupac_rev ref min_snpq (cb ! i)]) cb [0..<num_samples]"

subsection \<open>\<open>errmod_cal\<close>: genotype likelihoods of one column\<close>

text \<open>
  The coefficient tables \<open>fk\<close>, \<open>beta\<close> and \<open>lhet\<close> are read-only arrays built once by
  \<open>cal_coef\<close>; they are functions from the array index. \<open>call_aux_t\<close> holds the arrays
  \<open>fsum\<close>, \<open>bsum\<close> and \<open>c\<close> (indexed by \<open>k & 0xf\<close>); \<open>w\<close> is the local array of 32
  counters. All of them start at zero (\<^verbatim>\<open>memset\<close>).
\<close>

record errmod_coef =
  fk :: "nat \<Rightarrow> real"
  beta :: "nat \<Rightarrow> real"
  lhet :: "nat \<Rightarrow> real"

record errmod =
  depcorr :: real
  coef :: errmod_coef

record call_aux =
  fsum :: "nat \<Rightarrow> real"
  bsum :: "nat \<Rightarrow> real"
  aux_c :: "nat \<Rightarrow> nat"

definition call_aux_zero :: call_aux where
  "call_aux_zero = \<lparr>fsum = (\<lambda>_. 0), bsum = (\<lambda>_. 0), aux_c = (\<lambda>_. 0)\<rparr>"

text \<open>\<^verbatim>\<open>memset(q, 0, SQ(m) * sizeof(float))\<close>: the first \<open>m * m\<close> entries of \<open>q\<close> become 0.\<close>

definition memset_zero :: "real list \<Rightarrow> nat \<Rightarrow> real list" where
  "memset_zero q cnt = replicate (min cnt (length q)) 0 @ drop cnt q"

text \<open>\<^verbatim>\<open>int q = b >> 5 < NBASES ? NBASES : b >> 5; if (q > 63) q = 63;\<close>\<close>

definition errmod_qual :: "16 word \<Rightarrow> nat" where
  "errmod_qual b =
     (let q = (if unat (drop_bit 5 b) < NBASES then NBASES else unat (drop_bit 5 b))
      in if q > 63 then 63 else q)"

definition errmod_sum_step ::
  "errmod \<Rightarrow> nat \<Rightarrow> call_aux \<times> (nat \<Rightarrow> nat) \<Rightarrow> 16 word \<Rightarrow> call_aux \<times> (nat \<Rightarrow> nat)" where
  "errmod_sum_step em n s b =
     (case s of (aux, w) \<Rightarrow>
        let q = errmod_qual b;
            k = unat (b AND 0x1f);
            kb = k AND 0xf;
            f = fk (coef em) (w k)
        in (aux\<lparr>fsum := (fsum aux)(kb := fsum aux kb + f),
                 bsum := (bsum aux)(kb := bsum aux kb
                            + f * beta (coef em) (push_bit 16 q OR push_bit 8 n OR aux_c aux kb)),
                 aux_c := (aux_c aux)(kb := aux_c aux kb + 1)\<rparr>,
            w(k := w k + 1)))"

text \<open>
  One row \<open>j\<close> of the likelihood matrix. \<open>bar_e\<close> is computed by the source and never
  read; it is left out.
\<close>

definition errmod_hom :: "call_aux \<Rightarrow> nat \<Rightarrow> real list \<Rightarrow> nat \<Rightarrow> real list" where
  "errmod_hom aux m q j =
     (let others = filter (\<lambda>k. k \<noteq> j) [0..<m];
          tmp1 = sum_list (map (bsum aux) others);
          tmp2 = sum_list (map (aux_c aux) others)
      in if tmp2 \<noteq> 0 then q[j * m + j := tmp1] else q)"

definition errmod_het :: "errmod \<Rightarrow> call_aux \<Rightarrow> nat \<Rightarrow> nat \<Rightarrow> real list \<Rightarrow> nat \<Rightarrow> real list" where
  "errmod_het em aux m j q k =
     (let cjk = aux_c aux j + aux_c aux k;
          others = filter (\<lambda>i. \<not> (i = j \<or> i = k)) [0..<m];
          tmp1 = sum_list (map (bsum aux) others);
          tmp2 = sum_list (map (aux_c aux) others);
          l = - (4343 / 1000) * lhet (coef em) (push_bit 8 cjk OR aux_c aux k);
          v = (if tmp2 \<noteq> 0 then l + tmp1 else l)
      in (q[k * m + j := v])[j * m + k := v])"

definition errmod_clamp :: "nat \<Rightarrow> nat \<Rightarrow> real list \<Rightarrow> nat \<Rightarrow> real list" where
  "errmod_clamp m j q k = (if q ! (j * m + k) < 0 then q[j * m + k := 0] else q)"

definition errmod_row :: "errmod \<Rightarrow> call_aux \<Rightarrow> nat \<Rightarrow> real list \<Rightarrow> nat \<Rightarrow> real list" where
  "errmod_row em aux m q j =
     foldl (errmod_clamp m j)
       (foldl (errmod_het em aux m j) (errmod_hom aux m q j) [j + 1..<m])
       [0..<m]"

text \<open>
  \<open>ks_shuffle\<close> and \<open>ks_introsort\<close> come from \<^verbatim>\<open>ksort.h\<close>, which is not among the
  sources. The random permutation \<open>ks_shuffle\<close> draws is the parameter \<open>shuffle\<close>;
  \<open>ks_introsort\<close> sorts the first \<open>n\<close> entries in increasing order. \<open>n\<close> is an
  \<^verbatim>\<open>unsigned short\<close>; \<open>m\<close>, declared \<^verbatim>\<open>int\<close>, is the number of base symbols (\<open>NBASES\<close> at
  the call site) and is a natural number here. The result is the return value and
  the array \<open>q\<close>.
\<close>

definition errmod_cal ::
  "(16 word list \<Rightarrow> 16 word list) \<Rightarrow> errmod \<Rightarrow> nat \<Rightarrow> nat \<Rightarrow> 16 word list \<Rightarrow> real list
     \<Rightarrow> int \<times> real list" where
  "errmod_cal shuffle em n m bases q =
     (if m > m then (- 1, q)
      else let q0 = memset_zero q (m * m) in
        if n = 0 then (0, q0)
        else let bases1 = (if n > 255 then shuffle bases else bases);
                 n1 = (if n > 255 then 255 else n);
                 bases2 = sort (take n1 bases1);
                 aux = fst (foldl (errmod_sum_step em n1) (call_aux_zero, (\<lambda>_. 0)) (rev bases2))
             in (0, foldl (errmod_row em aux m) q0 [0..<m]))"

section \<open>The window data and the LD statistics (\<^verbatim>\<open>pop_ld.cpp\<close>)\<close>

text \<open>
  \<open>popbamData\<close> holds the members the functions below read or write. The class
  declarations are not among the sources (\<^verbatim>\<open>pop_ld.h\<close> is of another version), so the
  members are collected from their uses: \<open>sm_n\<close> and \<open>sm_npops\<close> are \<^verbatim>\<open>sm->n\<close> and
  \<^verbatim>\<open>sm->npops\<close>, \<open>endp\<close> is \<^verbatim>\<open>end\<close>, \<open>output_opt\<close> is \<^verbatim>\<open>output\<close>, \<open>het_flag\<close> is \<^verbatim>\<open>flag & BAM_HETEROZYGOTE\<close> and
  \<open>outgroup_flag\<close> is \<^verbatim>\<open>flag & BAM_OUTGROUP\<close>. Members that the derived classes
  declare under one name (\<open>pop_cov\<close>, \<open>num_snps\<close>, \<open>min_sites\<close>) are declared once.
\<close>

record popbamData =
  beg :: int
  endp :: int
  num_sites :: nat
  segsites :: nat
  types :: "64 word list"
  pop_mask :: "64 word list"
  pop_nsmpl :: "nat list"
  pop_cov :: "32 word list"
  num_snps :: "int list"
  sm_n :: nat
  sm_npops :: nat
  het_flag :: bool
  outgroup_flag :: bool
  ref_base :: string
  min_snpQ :: int
  min_rmsQ :: int
  min_depth :: int
  max_depth :: int
  min_sites :: real

record ldData = popbamData +
  output_opt :: int
  min_snps :: int
  min_freq :: nat
  zns :: "dbl list"
  omegamax :: "dbl list"
  wallb :: "dbl list"
  wallq :: "dbl list"

subsection \<open>\<open>init_ld\<close> and the per-column driver \<open>make_ld\<close>\<close>

text \<open>
  \<open>init_ld\<close> allocates the window's arrays, all zero (\<^verbatim>\<open>new T[n]()\<close>), and sets
  \<open>segsites\<close> to 0; \<open>main_ld\<close> sets \<open>num_sites\<close> to 0 just before it calls \<open>init_ld\<close>.
  Of the four statistic arrays only the one \<open>output\<close> selects is allocated.
\<close>

definition init_ld :: "'a ldData_scheme \<Rightarrow> 'a ldData_scheme" where
  "init_ld t =
     (let len = nat (endp t - beg t); npops = sm_npops t;
          t1 = t\<lparr>segsites := 0,
                 types := replicate len 0,
                 pop_mask := replicate npops 0,
                 pop_nsmpl := replicate npops 0,
                 pop_cov := replicate len 0,
                 num_snps := replicate npops 0\<rparr>
      in if output_opt t = 1 then t1\<lparr>omegamax := replicate npops (Fin 0)\<rparr>
         else if output_opt t = 2
         then t1\<lparr>wallb := replicate npops (Fin 0), wallq := replicate npops (Fin 0)\<rparr>
         else t1\<lparr>zns := replicate npops (Fin 0)\<rparr>)"

text \<open>
  Modelled from the spec: \<open>assign_pops\<close> is not among the sources. It fills
  \<open>pop_mask\<close> (one bit per member sample) and \<open>pop_nsmpl\<close> (the member count) from the
  sample metadata, here the two arguments.
\<close>

definition assign_pops :: "64 word list \<Rightarrow> nat list \<Rightarrow> 'a ldData_scheme \<Rightarrow> 'a ldData_scheme" where
  "assign_pops masks nsmpl t = t\<lparr>pop_mask := masks, pop_nsmpl := nsmpl\<rparr>"

definition window_start :: "64 word list \<Rightarrow> nat list \<Rightarrow> 'a ldData_scheme \<Rightarrow> 'a ldData_scheme" where
  "window_start masks nsmpl t = assign_pops masks nsmpl (init_ld (t\<lparr>num_sites := 0\<rparr>))"

text \<open>
  Modelled from the spec: \<open>cal_site_type\<close> is not among the sources. Bit \<open>i\<close> of the
  site type is set iff the call of sample \<open>i\<close> passed the filters (bit 0 of the call
  word) and is a homozygous non-reference call (the variant bit, bit 1).
\<close>

definition cal_site_type :: "nat \<Rightarrow> callword list \<Rightarrow> 64 word" where
  "cal_site_type n cb =
     foldl (\<lambda>site_type i. if cb ! i AND 3 = 3 then site_type OR push_bit i 1 else site_type)
       0 [0..<n]"

text \<open>The loop over the populations that marks the covered ones in \<open>pop_cov[num_sites]\<close>.\<close>

definition pop_cov_step ::
  "64 word \<Rightarrow> 64 word list \<Rightarrow> nat list \<Rightarrow> nat \<Rightarrow> 32 word list \<Rightarrow> nat \<Rightarrow> 32 word list" where
  "pop_cov_step sample_cov masks nsmpl ns pc i =
     (let ncov = bitcount64 (sample_cov AND masks ! i)
      in if ncov = nsmpl ! i then pc[ns := pc ! ns OR push_bit i 1] else pc)"

text \<open>
  One call of \<open>make_ld\<close>. The column is given by its position \<open>pos\<close> (an
  \<^verbatim>\<open>unsigned int\<close>, compared as \<^verbatim>\<open>(int)pos\<close>) and by the array \<open>cb\<close> that \<open>call_base\<close>
  (not among the sources) fills from the pileup. The functions called are those of
  \<^verbatim>\<open>pop_utils.cpp\<close>, in the order of the source: \<open>cleanHeterozygotes\<close>, \<open>segBase\<close>,
  \<open>qualFilter\<close>.
\<close>

definition make_ld ::
  "(nat \<Rightarrow> char) \<Rightarrow> (char \<Rightarrow> int) \<Rightarrow> 'a ldData_scheme \<Rightarrow> 32 word \<times> callword list
     \<Rightarrow> 'a ldData_scheme" where
  "make_ld iupac iupac_rev t col =
     (case col of (pos, cb0) \<Rightarrow>
      if beg t \<le> sint pos \<and> endp t > sint pos then
        (let ref = ref_base t ! unat pos;
             cb1 = (if \<not> het_flag t
                    then cleanHeterozygotes iupac_rev (sm_n t) cb0 ref (min_snpQ t) else cb0);
             (fq, cb2) = segBase iupac iupac_rev (sm_n t) cb1 ref (min_snpQ t);
             (sample_cov, cb3) = qualFilter (sm_n t) cb2 (min_rmsQ t) (min_depth t) (max_depth t);
             pc = foldl (pop_cov_step sample_cov (pop_mask t) (pop_nsmpl t) (num_sites t))
                    (pop_cov t) [0..<sm_npops t];
             t1 = t\<lparr>pop_cov := pc\<rparr>
         in if pc ! num_sites t > 0 then
              (let t2 = t1\<lparr>num_sites := num_sites t + 1\<rparr>
               in if fq > 0
                  then t2\<lparr>types := (types t)[segsites t := cal_site_type (sm_n t) cb3],
                          segsites := segsites t + 1\<rparr>
                  else t2)
            else t1)
      else t)"

subsection \<open>\<open>calc_zns\<close>\<close>

text \<open>
  A site qualifies in a population of \<open>n\<close> samples when its derived count \<open>x\<close>
  satisfies \<^verbatim>\<open>(x >= min_freq) && (x <= (n - min_freq))\<close>; the operands are
  \<^verbatim>\<open>unsigned short\<close>, promoted to \<^verbatim>\<open>int\<close>.
\<close>

definition qualifies :: "nat \<Rightarrow> nat \<Rightarrow> nat \<Rightarrow> bool" where
  "qualifies mf n x = (int x \<ge> int mf \<and> int x \<le> int n - int mf)"

text \<open>
  \<^verbatim>\<open>SQ(x0 * x1 - n * x11) / (double)((n - x0) * x0 * (n - x1) * x1)\<close>: \<open>x11\<close> is an
  \<^verbatim>\<open>unsigned long long\<close>, so the numerator is computed in 64 bits and wraps; the
  denominator is an \<^verbatim>\<open>int\<close> product (well below \<open>2^31\<close> for at most 64 samples).
\<close>

definition r2_val :: "nat \<Rightarrow> nat \<Rightarrow> nat \<Rightarrow> nat \<Rightarrow> dbl" where
  "r2_val n x0 x1 x11 =
     ddiv (Fin (real (unat (SQ (of_nat (x0 * x1) - of_nat n * of_nat x11)))))
          (Fin (real_of_int ((int n - int x0) * int x0 * (int n - int x1) * int x1)))"

definition zns_inner ::
  "64 word list \<Rightarrow> 64 word \<Rightarrow> nat \<Rightarrow> nat \<Rightarrow> 64 word \<Rightarrow> nat \<Rightarrow> dbl \<Rightarrow> nat \<Rightarrow> dbl" where
  "zns_inner ts pm n mf type0 x0 z k =
     (let type1 = ts ! k AND pm; x1 = bitcount64 type1
      in if qualifies mf n x1
         then dadd z (r2_val n x0 x1 (bitcount64 (type0 AND type1)))
         else z)"

definition zns_outer ::
  "64 word list \<Rightarrow> nat \<Rightarrow> 64 word \<Rightarrow> nat \<Rightarrow> nat \<Rightarrow> int \<times> dbl \<Rightarrow> nat \<Rightarrow> int \<times> dbl" where
  "zns_outer ts segs pm n mf s j =
     (case s of (nsnp, z) \<Rightarrow>
        let type0 = ts ! j AND pm; x0 = bitcount64 type0
        in if qualifies mf n x0
           then (nsnp + 1, foldl (zns_inner ts pm n mf type0 x0) z [j + 1..<segs])
           else (nsnp, z))"

text \<open>
  The body of the loop over the populations, for one population: the result is
  \<open>(num_snps[i], zns[i])\<close>. \<open>z0\<close> is the value of \<open>zns[i]\<close> on entry.
\<close>

definition calc_zns_pop ::
  "64 word list \<Rightarrow> nat \<Rightarrow> 64 word \<Rightarrow> nat \<Rightarrow> nat \<Rightarrow> dbl \<Rightarrow> int \<times> dbl" where
  "calc_zns_pop ts segs pm n mf z0 =
     (case foldl (zns_outer ts segs pm n mf) (0, z0) [0..<segs - 1] of
        (nsnp, z) \<Rightarrow>
          (nsnp + 1, dmul z (ddiv (Fin 1) (Fin (real_of_int (BINOM (nsnp + 1)))))))"

definition calc_zns_step :: "'a ldData_scheme \<Rightarrow> nat \<Rightarrow> 'a ldData_scheme" where
  "calc_zns_step t i =
     (case calc_zns_pop (types t) (segsites t) (pop_mask t ! i) (pop_nsmpl t ! i)
             (min_freq t) (zns t ! i) of
        (nsnp, z) \<Rightarrow> t\<lparr>num_snps := (num_snps t)[i := nsnp], zns := (zns t)[i := z]\<rparr>)"

definition calc_zns :: "'a ldData_scheme \<Rightarrow> 'a ldData_scheme" where
  "calc_zns t = (if segsites t < 1 then t else foldl calc_zns_step t [0..<sm_npops t])"

subsection \<open>\<open>calc_omegamax\<close>\<close>

text \<open>
  The matrix \<open>r2\<close> (\<open>segsites\<close> by \<open>segsites\<close>, all zero at first) is a list of
  rows. The state of the outer loop is \<open>(num_snps, count1, r2)\<close>, that of
  the inner loop \<open>(count2, r2)\<close>.
\<close>

type_synonym r2mat = "dbl list list"

definition r2_set :: "r2mat \<Rightarrow> nat \<Rightarrow> nat \<Rightarrow> dbl \<Rightarrow> r2mat" where
  "r2_set r2 a b v = r2[a := (r2 ! a)[b := v]]"

definition omega_inner ::
  "64 word list \<Rightarrow> 64 word \<Rightarrow> nat \<Rightarrow> nat \<Rightarrow> 64 word \<Rightarrow> nat \<Rightarrow> nat \<Rightarrow> nat \<times> r2mat \<Rightarrow> nat
     \<Rightarrow> nat \<times> r2mat" where
  "omega_inner ts pm n mf type0 x0 count1 s k =
     (case s of (count2, r2) \<Rightarrow>
        let type1 = ts ! k AND pm; x1 = bitcount64 type1
        in if qualifies mf n x1
           then (let v = r2_val n x0 x1 (bitcount64 (type0 AND type1))
                 in (count2 + 1, r2_set (r2_set r2 count1 (count2 + 1) v) (count2 + 1) count1 v))
           else (count2, r2))"

definition omega_outer ::
  "64 word list \<Rightarrow> nat \<Rightarrow> 64 word \<Rightarrow> nat \<Rightarrow> nat \<Rightarrow> int \<times> nat \<times> r2mat \<Rightarrow> nat
     \<Rightarrow> int \<times> nat \<times> r2mat" where
  "omega_outer ts segs pm n mf s i =
     (case s of (nsnp, count1, r2) \<Rightarrow>
        let type0 = ts ! i AND pm; x0 = bitcount64 type0
        in if qualifies mf n x0
           then (nsnp + 1, count1 + 1,
                 snd (foldl (omega_inner ts pm n mf type0 x0 count1) (count1, r2) [i + 1..<segs]))
           else (nsnp, count1, r2))"

text \<open>
  The partition loop. Its state is \<open>(sumleft, sumbetween, sumright, omegamax)\<close>; the
  three sums are set to 0 once, before the loop, and each split point \<open>i\<close> adds to
  them. \<open>dsum\<close> adds the entries in the order of the source's loops.
\<close>

definition dsum :: "dbl \<Rightarrow> dbl list \<Rightarrow> dbl" where
  "dsum z xs = foldl dadd z xs"

definition left_entries :: "r2mat \<Rightarrow> nat \<Rightarrow> dbl list" where
  "left_entries r2 i = concat (map (\<lambda>k. map (\<lambda>m. r2 ! k ! m) [k + 1..<i + 1]) [0..<i])"

definition between_entries :: "r2mat \<Rightarrow> nat \<Rightarrow> nat \<Rightarrow> dbl list" where
  "between_entries r2 nsnp i =
     concat (map (\<lambda>k. map (\<lambda>m. r2 ! k ! m) [0..<i + 1]) [i + 1..<nsnp])"

definition right_entries :: "r2mat \<Rightarrow> nat \<Rightarrow> nat \<Rightarrow> dbl list" where
  "right_entries r2 nsnp i =
     concat (map (\<lambda>k. map (\<lambda>m. r2 ! k ! m) [k + 1..<nsnp]) [i + 1..<nsnp - 1])"

definition omega_sums :: "r2mat \<Rightarrow> nat \<Rightarrow> dbl \<times> dbl \<times> dbl \<Rightarrow> nat \<Rightarrow> dbl \<times> dbl \<times> dbl" where
  "omega_sums r2 nsnp s i =
     (case s of (sumleft, sumbetween, sumright) \<Rightarrow>
        (dsum sumleft (left_entries r2 i),
         dsum sumbetween (between_entries r2 nsnp i),
         dsum sumright (right_entries r2 nsnp i)))"

text \<open>
  \<^verbatim>\<open>omega = (sumleft + sumright) / (BINOM(left) + BINOM(right));\<close>
  \<^verbatim>\<open>omega *= left * right / sumbetween;\<close>
\<close>

definition omega_val :: "nat \<Rightarrow> dbl \<times> dbl \<times> dbl \<Rightarrow> nat \<Rightarrow> dbl" where
  "omega_val nsnp s i =
     (case s of (sumleft, sumbetween, sumright) \<Rightarrow>
        let left = int i + 1; right = int nsnp - left
        in dmul (ddiv (dadd sumleft sumright) (Fin (real_of_int (BINOM left + BINOM right))))
                (ddiv (Fin (real_of_int (left * right))) sumbetween))"

definition omega_split ::
  "r2mat \<Rightarrow> nat \<Rightarrow> (dbl \<times> dbl \<times> dbl) \<times> dbl \<Rightarrow> nat \<Rightarrow> (dbl \<times> dbl \<times> dbl) \<times> dbl" where
  "omega_split r2 nsnp s i =
     (case s of (su, omax) \<Rightarrow>
        let su' = omega_sums r2 nsnp su i;
            omega = omega_val nsnp su' i
        in (su', if dgt omega omax then omega else omax))"

text \<open>For one population: the result is \<open>(num_snps[j], omegamax[j])\<close>.\<close>

definition omega_matrix ::
  "64 word list \<Rightarrow> nat \<Rightarrow> 64 word \<Rightarrow> nat \<Rightarrow> nat \<Rightarrow> int \<times> r2mat" where
  "omega_matrix ts segs pm n mf =
     (case foldl (omega_outer ts segs pm n mf) (0, 0, replicate segs (replicate segs (Fin 0)))
             [0..<segs - 1] of
        (nsnp, count1, r2) \<Rightarrow> (nsnp + 1, r2))"

definition calc_omegamax_pop ::
  "64 word list \<Rightarrow> nat \<Rightarrow> 64 word \<Rightarrow> nat \<Rightarrow> nat \<Rightarrow> int \<times> dbl" where
  "calc_omegamax_pop ts segs pm n mf =
     (case omega_matrix ts segs pm n mf of
        (nsnp, r2) \<Rightarrow>
          (nsnp, snd (foldl (omega_split r2 (nat nsnp)) ((Fin 0, Fin 0, Fin 0), Fin 0)
                        [1..<nat nsnp - 1])))"

definition calc_omegamax_step :: "'a ldData_scheme \<Rightarrow> nat \<Rightarrow> 'a ldData_scheme" where
  "calc_omegamax_step t j =
     (case calc_omegamax_pop (types t) (segsites t) (pop_mask t ! j) (pop_nsmpl t ! j)
             (min_freq t) of
        (nsnp, om) \<Rightarrow>
          t\<lparr>num_snps := (num_snps t)[j := nsnp], omegamax := (omegamax t)[j := om]\<rparr>)"

definition calc_omegamax :: "'a ldData_scheme \<Rightarrow> 'a ldData_scheme" where
  "calc_omegamax t =
     (if segsites t < 1 then t else foldl calc_omegamax_step t [0..<sm_npops t])"

subsection \<open>\<open>calc_wall\<close>\<close>

text \<open>
  The population-specific pattern of a site and its complement, built bit by bit
  over the \<open>sm->n\<close> samples.
\<close>

definition wall_type_step :: "64 word \<Rightarrow> 64 word \<Rightarrow> 64 word \<times> 64 word \<Rightarrow> nat \<Rightarrow> 64 word \<times> 64 word" where
  "wall_type_step ty pm s k =
     (case s of (type, complem) \<Rightarrow>
        if CHECK_BIT ty k AND CHECK_BIT pm k \<noteq> 0 then (type OR push_bit k 1, complem)
        else if NOT (CHECK_BIT ty k) AND CHECK_BIT pm k \<noteq> 0 then (type, complem OR push_bit k 1)
        else (type, complem))"

definition wall_types :: "nat \<Rightarrow> 64 word \<Rightarrow> 64 word \<Rightarrow> 64 word \<times> 64 word" where
  "wall_types n ty pm = foldl (wall_type_step ty pm) (0, 0) [0..<n]"

text \<open>
  The locals of \<open>calc_wall\<close>: \<open>last_type\<close> is one variable for all populations;
  \<open>num_congruent\<close>, \<open>num_part\<close> and \<open>uniq_part_types\<close> have one entry per population.
\<close>

record wall_state =
  last_type :: "64 word"
  num_congruent :: "int list"
  num_part :: "int list"
  uniq_part_types :: "64 word list list"
  wall_snps :: "int list"

definition wall_site ::
  "nat \<Rightarrow> 64 word list \<Rightarrow> 64 word \<Rightarrow> wall_state \<Rightarrow> nat \<Rightarrow> wall_state" where
  "wall_site n masks ty w j =
     (case wall_types n ty (masks ! j) of (type, complem) \<Rightarrow>
        if type > 0 \<and> type < masks ! j then
          (if wall_snps w ! j = 0 then
             w\<lparr>uniq_part_types := (uniq_part_types w)[j := uniq_part_types w ! j @ [type]],
               last_type := type,
               wall_snps := (wall_snps w)[j := wall_snps w ! j + 1]\<rparr>
           else
             (let w1 =
                (if type = last_type w \<or> complem = last_type w then
                   (let w0 = w\<lparr>num_congruent := (num_congruent w)[j := num_congruent w ! j + 1]\<rparr>
                    in if count_list (uniq_part_types w ! j) type = 0
                          \<and> count_list (uniq_part_types w ! j) complem = 0
                       then w0\<lparr>uniq_part_types :=
                                  (uniq_part_types w)[j := uniq_part_types w ! j @ [type]],
                               num_part := (num_part w)[j := num_part w ! j + 1]\<rparr>
                       else w0)
                 else w)
              in w1\<lparr>wall_snps := (wall_snps w1)[j := wall_snps w1 ! j + 1], last_type := type\<rparr>))
        else w)"

definition wall_scan :: "nat \<Rightarrow> nat \<Rightarrow> 64 word list \<Rightarrow> 64 word list \<Rightarrow> nat \<Rightarrow> int list \<Rightarrow> wall_state" where
  "wall_scan n npops masks ts segs snps0 =
     foldl (\<lambda>w i. foldl (wall_site n masks (ts ! i)) w [0..<npops])
       \<lparr>last_type = 0, num_congruent = replicate npops 0, num_part = replicate npops 0,
        uniq_part_types = replicate npops [], wall_snps = snps0\<rparr>
       [0..<segs]"

text \<open>The last loop of \<open>calc_wall\<close>: B and Q of population \<open>i\<close>.\<close>

definition calc_wall_stat :: "wall_state \<Rightarrow> 'a ldData_scheme \<Rightarrow> nat \<Rightarrow> 'a ldData_scheme" where
  "calc_wall_stat w t i =
     t\<lparr>wallb := (wallb t)[i := ddiv (Fin (real_of_int (num_congruent w ! i)))
                                 (Fin (real_of_int (num_snps t ! i - 1)))],
       wallq := (wallq t)[i := ddiv (Fin (real_of_int (num_congruent w ! i + num_part w ! i)))
                                 (Fin (real_of_int (num_snps t ! i)))]\<rparr>"

definition calc_wall :: "'a ldData_scheme \<Rightarrow> 'a ldData_scheme" where
  "calc_wall t =
     (if segsites t < 1 then t
      else let w = wall_scan (sm_n t) (sm_npops t) (pop_mask t) (types t) (segsites t) (num_snps t)
           in foldl (calc_wall_stat w) (t\<lparr>num_snps := wall_snps w\<rparr>) [0..<sm_npops t])"

subsection \<open>\<open>print_ld\<close> and one window\<close>

text \<open>
  What \<open>print_ld\<close> writes for one population after the SNP count: each statistic is
  either the text \<open>NA\<close> or the number. (The source also resets \<open>wallb\<close> and \<open>wallq\<close>
  to 0 after printing them; the arrays are freed right after.)
\<close>

datatype field = NA | Number dbl

definition print_ld_pop :: "'a ldData_scheme \<Rightarrow> nat \<Rightarrow> int \<times> field list" where
  "print_ld_pop t i =
     (num_snps t ! i,
      if num_snps t ! i \<ge> min_snps t then
        (if output_opt t = 1 then [Number (omegamax t ! i)]
         else if output_opt t = 2 then [Number (wallb t ! i), Number (wallq t ! i)]
         else [Number (zns t ! i)])
      else
        (if output_opt t = 2 then [NA, NA] else [NA]))"

definition print_ld :: "'a ldData_scheme \<Rightarrow> (int \<times> field list) list" where
  "print_ld t = map (print_ld_pop t) [0..<sm_npops t]"

text \<open>
  \<open>main_ld\<close> calls the statistic through the table
  \<^verbatim>\<open>{&ldData::calc_zns, &ldData::calc_omegamax, &ldData::calc_wall}\<close> indexed by \<open>output\<close>
  (0, 1 or 2: \<open>parseCommandLine\<close> refuses any other value).
\<close>

definition calc_ld :: "'a ldData_scheme \<Rightarrow> 'a ldData_scheme" where
  "calc_ld t = (if output_opt t = 1 then calc_omegamax t
                else if output_opt t = 2 then calc_wall t
                else calc_zns t)"

text \<open>
  One window of \<open>main_ld\<close>: the window's state is initialised, the columns of the
  pileup are fed to \<open>make_ld\<close>, the statistic is computed and printed.
\<close>

definition ld_columns ::
  "(nat \<Rightarrow> char) \<Rightarrow> (char \<Rightarrow> int) \<Rightarrow> 'a ldData_scheme \<Rightarrow> (32 word \<times> callword list) list
     \<Rightarrow> 'a ldData_scheme" where
  "ld_columns iupac iupac_rev t cols = foldl (make_ld iupac iupac_rev) t cols"

definition ld_window ::
  "(nat \<Rightarrow> char) \<Rightarrow> (char \<Rightarrow> int) \<Rightarrow> 64 word list \<Rightarrow> nat list \<Rightarrow> 'a ldData_scheme
     \<Rightarrow> (32 word \<times> callword list) list \<Rightarrow> (int \<times> field list) list" where
  "ld_window iupac iupac_rev masks nsmpl t cols =
     print_ld (calc_ld (ld_columns iupac iupac_rev (window_start masks nsmpl t) cols))"

section \<open>The site-frequency-spectrum statistics (\<^verbatim>\<open>pop_sfs.cpp\<close>)\<close>

record sfsData = popbamData +
  ncov :: "nat list list"
  ns :: "nat list"
  td :: "dbl list"
  fwh :: "dbl list"
  min_pop :: real
  outidx :: nat
  outpop :: nat
  a1 :: "real list"
  a2 :: "real list"
  e1 :: "real list"
  e2 :: "real list"
  dw :: "real list list"
  hw :: "real list list"

subsection \<open>The constant tables\<close>

text \<open>
  Each function takes \<open>sm->n\<close> and returns the table it allocates and fills. No
  division in them is by zero (\<open>a1[i] \<ge> 1\<close>, and \<open>i - 1 \<ge> 1\<close> where it divides), so
  the entries are finite reals. \<open>dw\<close> and \<open>hw\<close> are zero-initialised and filled for
  \<open>2 \<le> n \<le> i \<le> sm->n\<close> only.
\<close>

definition calc_a1 :: "nat \<Rightarrow> real list" where
  "calc_a1 n = map (\<lambda>i. if i < 2 then 1 else sum_list (map (\<lambda>j. 1 / real j) [1..<i])) [0..<n + 1]"

definition calc_a2 :: "nat \<Rightarrow> real list" where
  "calc_a2 n = map (\<lambda>i. if i < 2 then 1 else sum_list (map (\<lambda>j. 1 / (real j)\<^sup>2) [1..<i])) [0..<n + 2]"

definition calc_e1 :: "real list \<Rightarrow> nat \<Rightarrow> real list" where
  "calc_e1 a1t n =
     map (\<lambda>i. if i < 2 then 1
               else (let b1 = (real i + 1) / (3 * (real i - 1))
                     in (b1 - 1 / a1t ! i) / a1t ! i)) [0..<n + 1]"

definition calc_e2 :: "real list \<Rightarrow> real list \<Rightarrow> nat \<Rightarrow> real list" where
  "calc_e2 a1t a2t n =
     map (\<lambda>i. if i < 2 then 1
               else (let b2 = (2 * ((real i)\<^sup>2 + real i + 3)) / (9 * real i * (real i - 1))
                     in (b2 - ((real i + 2) / (a1t ! i * real i)) + (a2t ! i / (a1t ! i)\<^sup>2))
                          / ((a1t ! i)\<^sup>2 + a2t ! i))) [0..<n + 1]"

definition calc_dw :: "real list \<Rightarrow> nat \<Rightarrow> real list list" where
  "calc_dw a1t sn =
     map (\<lambda>n. map (\<lambda>i. if 2 \<le> n \<and> n \<le> i
                          then (2 * real i * (real n - real i)) / (real n - 1)\<^sup>2 - 1 / a1t ! n
                          else 0) [0..<sn + 1]) [0..<sn + 1]"

definition calc_hw :: "real list \<Rightarrow> nat \<Rightarrow> real list list" where
  "calc_hw a1t sn =
     map (\<lambda>n. map (\<lambda>i. if 2 \<le> n \<and> n \<le> i
                          then 1 / a1t ! n - real i / (real n - 1)
                          else 0) [0..<sn + 1]) [0..<sn + 1]"

definition sfs_tables :: "'a sfsData_scheme \<Rightarrow> 'a sfsData_scheme" where
  "sfs_tables t =
     (let n = sm_n t; a1t = calc_a1 n; a2t = calc_a2 n
      in t\<lparr>a1 := a1t, a2 := a2t, e1 := calc_e1 a1t n, e2 := calc_e2 a1t a2t n,
           dw := calc_dw a1t n, hw := calc_hw a1t n\<rparr>)"

subsection \<open>\<open>calc_sfs\<close> and \<open>print_sfs\<close>\<close>

text \<open>
  The first loop counts, for each population \<open>j\<close>, the sites \<open>i < num_sites\<close> whose
  \<open>pop_cov\<close> has bit \<open>j\<close> set, and adds the count to \<open>ns[j]\<close>.
\<close>

definition count_aligned :: "32 word list \<Rightarrow> nat \<Rightarrow> nat \<Rightarrow> nat" where
  "count_aligned pc nsites j =
     length (filter (\<lambda>i. CHECK_BIT (ucast (pc ! i)) j \<noteq> 0) [0..<nsites])"

text \<open>
  \<^verbatim>\<open>(unsigned long int)((end - beg) * min_sites)\<close>: the product is a \<^verbatim>\<open>double\<close>, the
  conversion truncates it (the window is not empty and \<open>min_sites\<close> is not negative).
\<close>

definition sites_threshold :: "int \<Rightarrow> int \<Rightarrow> real \<Rightarrow> nat" where
  "sites_threshold b e ms = nat \<lfloor>real_of_int (e - b) * ms\<rfloor>"

text \<open>
  \<^verbatim>\<open>(int)x\<close> for a \<^verbatim>\<open>double\<close> \<open>x\<close>: truncation towards zero; C leaves the conversion of
  a NaN, an infinity or a value outside the range of \<^verbatim>\<open>int\<close> undefined (\<open>None\<close>).
\<close>

fun d2i :: "dbl \<Rightarrow> int option" where
  "d2i (Fin x) =
     (let i = (if x \<ge> 0 then \<lfloor>x\<rfloor> else \<lceil>x\<rceil>)
      in if - (2 ^ 31) \<le> i \<and> i < 2 ^ 31 then Some i else None)"
| "d2i _ = None"

text \<open>The frequency of the derived allele at site \<open>j\<close> (an \<^verbatim>\<open>unsigned short\<close>).\<close>

definition sfs_freq :: "'a sfsData_scheme \<Rightarrow> nat \<Rightarrow> nat \<Rightarrow> nat" where
  "sfs_freq t i j =
     (let pop_type = types t ! j AND pop_mask t ! i
      in if outgroup_flag t \<and> ncov t ! outpop t ! j > 0 \<and> CHECK_BIT (types t ! j) (outidx t) \<noteq> 0
         then nat ((int (ncov t ! i ! j) - int (bitcount64 pop_type)) mod 65536)
         else bitcount64 pop_type)"

text \<open>The loop over the segregating sites; its state is \<open>(td[i], fwh[i], avgn, num_snps[i])\<close>.\<close>

definition sfs_site ::
  "'a sfsData_scheme \<Rightarrow> nat \<Rightarrow> dbl \<times> dbl \<times> int \<times> int \<Rightarrow> nat \<Rightarrow> dbl \<times> dbl \<times> int \<times> int" where
  "sfs_site t i s j =
     (case s of (tdi, fwhi, avgn, nsnp) \<Rightarrow>
        let freq = sfs_freq t i j; c = ncov t ! i ! j
        in if freq > 0 \<and> freq < c
           then (dadd tdi (Fin (dw t ! c ! freq)), dadd fwhi (Fin (hw t ! c ! freq)),
                 avgn + int c, nsnp + 1)
           else (tdi, fwhi, avgn, nsnp))"

text \<open>
  The variance term that divides \<open>fwh[i]\<close>, with the source's grouping of the
  operands. \<open>n\<close> and \<open>s\<close> are \<^verbatim>\<open>int\<close>s.
\<close>

definition fwh_var :: "'a sfsData_scheme \<Rightarrow> int \<Rightarrow> int \<Rightarrow> dbl" where
  "fwh_var t n s =
     (let rn = real_of_int n; a1n = a1 t ! nat n; a2n = a2 t ! nat n; a2n1 = a2 t ! nat (n + 1)
      in dadd
           (ddiv (dmul (Fin (real_of_int (n - 2))) (ddiv (Fin (real_of_int s)) (Fin a1n)))
                 (Fin (6 * real_of_int (n - 1))))
           (ddiv (dmul (ddiv (Fin (real_of_int (s * (s - 1)))) (Fin (a1n\<^sup>2 + a2n)))
                       (Fin (18 * rn\<^sup>2 * (3 * rn + 2) * a2n1
                              - (88 * rn * rn * rn + 9 * rn\<^sup>2 - 13 * rn + 6))))
                 (Fin (9 * rn * (real_of_int (n - 1))\<^sup>2))))"

text \<open>
  The statistics of one population that passed the threshold. The result is
  \<open>(num_snps[i], td[i], fwh[i])\<close>, or \<open>None\<close> where the source has no defined
  behaviour: the conversion \<^verbatim>\<open>(int)(((double)(avgn)/num_snps[i])+0.4999)\<close> of a NaN (no
  SNP counted), or a table index out of range.
\<close>

definition sfs_stats :: "'a sfsData_scheme \<Rightarrow> nat \<Rightarrow> (int \<times> dbl \<times> dbl) option" where
  "sfs_stats t i =
     (case foldl (sfs_site t i) (td t ! i, fwh t ! i, 0, 0) [0..<segsites t] of
        (tdi, fwhi, avgn, nsnp) \<Rightarrow>
          (case d2i (dadd (ddiv (Fin (real_of_int avgn)) (Fin (real_of_int nsnp))) (Fin (4999 / 10000))) of
             None \<Rightarrow> None
           | Some n \<Rightarrow>
               if n < 0 \<or> n > int (sm_n t) then None
               else Some (nsnp,
                      ddiv tdi (dsqrt (Fin (e1 t ! nat n * real_of_int nsnp
                                            + e2 t ! nat n * real_of_int nsnp * real_of_int (nsnp - 1)))),
                      ddiv fwhi (dsqrt (fwh_var t n nsnp)))))"

definition calc_sfs_pop :: "'a sfsData_scheme \<Rightarrow> nat \<Rightarrow> 'a sfsData_scheme option" where
  "calc_sfs_pop t i =
     (if ns t ! i \<ge> sites_threshold (beg t) (endp t) (min_sites t)
      then (case sfs_stats t i of
              None \<Rightarrow> None
            | Some (nsnp, tdi, fwhi) \<Rightarrow>
                Some (t\<lparr>num_snps := (num_snps t)[i := nsnp],
                        td := (td t)[i := tdi], fwh := (fwh t)[i := fwhi]\<rparr>))
      else Some (t\<lparr>td := (td t)[i := NaN], fwh := (fwh t)[i := NaN]\<rparr>))"

definition calc_sfs :: "'a sfsData_scheme \<Rightarrow> 'a sfsData_scheme option" where
  "calc_sfs t =
     (let t0 = t\<lparr>ns := map (\<lambda>j. ns t ! j + count_aligned (pop_cov t) (num_sites t) j)
                          [0..<sm_npops t]\<rparr>
      in foldl (\<lambda>r i. case r of None \<Rightarrow> None | Some t' \<Rightarrow> calc_sfs_pop t' i)
           (Some t0) [0..<sm_npops t])"

text \<open>What \<open>print_sfs\<close> writes for one population: \<open>ns\<close>, then \<open>D\<close> and \<open>H\<close>.\<close>

definition print_sfs_pop :: "'a sfsData_scheme \<Rightarrow> nat \<Rightarrow> nat \<times> field \<times> field" where
  "print_sfs_pop t i =
     (ns t ! i,
      if isnan (td t ! i) then NA else Number (td t ! i),
      if isnan (fwh t ! i) then NA else Number (fwh t ! i))"

definition print_sfs :: "'a sfsData_scheme \<Rightarrow> (nat \<times> field \<times> field) list" where
  "print_sfs t = map (print_sfs_pop t) [0..<sm_npops t]"

text \<open>
  The non-reference bases of the calls \<open>segBase\<close> tallies: homozygous, different from
  the reference, of SNP quality at least \<open>min_snpq\<close>.
\<close>

definition segBase_bases :: "(nat \<Rightarrow> char) \<Rightarrow> char \<Rightarrow> int \<Rightarrow> callword list \<Rightarrow> nat set" where
  "segBase_bases iupac ref min_snpq cb =
     cw_allele1 ` set (filter (segBase_tallied iupac ref min_snpq) cb)"

subsection \<open>Example tables and calls\<close>

text \<open>
  Modelled from the spec: \<^verbatim>\<open>tables.h\<close> is not among the sources. The theorems below hold
  for every pair of tables; the examples instantiate them with the 4-symbol alphabet
  in the order A, C, G, T: the homozygous genotype codes 0, 5, 10 and 15 print as
  \<open>A\<close>, \<open>C\<close>, \<open>G\<close> and \<open>T\<close>, any other code as \<open>N\<close>, and the base codes of \<open>A\<close>, \<open>C\<close>,
  \<open>G\<close>, \<open>T\<close> are 0, 1, 2, 3 (4 for any other character).
\<close>

definition iupac_acgt :: "nat \<Rightarrow> char" where
  "iupac_acgt g = (if g = 0 then CHR ''A'' else if g = 5 then CHR ''C''
                   else if g = 10 then CHR ''G'' else if g = 15 then CHR ''T'' else CHR ''N'')"

definition iupac_rev_acgt :: "char \<Rightarrow> int" where
  "iupac_rev_acgt c = (if c = CHR ''A'' then 0 else if c = CHR ''C'' then 1
                       else if c = CHR ''G'' then 2 else if c = CHR ''T'' then 3 else 4)"

text \<open>A call word with the given genotype code and SNP quality, every other field 0.\<close>

definition call_of :: "64 word \<Rightarrow> 64 word \<Rightarrow> callword" where
  "call_of genotype snpq = push_bit 32 snpq + push_bit 8 genotype"

subsection \<open>Example likelihood arrays\<close>

text \<open>
  A column whose cheapest genotype is the heterozygote A/C (index 1, cost 5) and whose
  second cheapest is C/C (cost 12.25), at depth 23: the gap 7.25 is stored as 7.
\<close>

definition gl2cns_example :: "real list" where
  "gl2cns_example = [30, 5, 30, 30, 0, 49 / 4, 40, 50, 0, 0, 60, 70, 0, 0, 0, 80]"

text \<open>
  Two costs that are \<^verbatim>\<open>float\<close>s, \<open>8388649 / 2^25\<close> for A/A and \<open>16122381 / 2^19\<close> for every
  other genotype. Their difference \<open>1023443735 / 2^25\<close>, about 30.5010001, is not a
  \<^verbatim>\<open>float\<close>: it is rounded to \<open>15991308 / 2^19\<close>, about 30.5009995, and with 0.499 added
  the sum is below 31.
\<close>

definition gl2cns_rounding :: "real list" where
  "gl2cns_rounding =
     [8388649 / 2 ^ 25, 16122381 / 2 ^ 19, 16122381 / 2 ^ 19, 16122381 / 2 ^ 19,
      0, 16122381 / 2 ^ 19, 16122381 / 2 ^ 19, 16122381 / 2 ^ 19,
      0, 0, 16122381 / 2 ^ 19, 16122381 / 2 ^ 19,
      0, 0, 0, 16122381 / 2 ^ 19]"

text \<open>
  Costs \<open>0\<close> for A/A and \<open>70000\<close> for every other genotype.
\<close>

definition gl2cns_overflow :: "real list" where
  "gl2cns_overflow = [0, 70000, 70000, 70000, 0, 70000, 70000, 70000,
                      0, 0, 70000, 70000, 0, 0, 0, 70000]"

text \<open>A call word with all four numeric fields given, both flag bits clear.\<close>

definition call_full :: "64 word \<Rightarrow> 64 word \<Rightarrow> 64 word \<Rightarrow> 64 word \<Rightarrow> callword" where
  "call_full genotype depth snpq rms =
     push_bit 48 rms + push_bit 32 snpq + push_bit 16 depth + push_bit 8 genotype"

text \<open>
  An example window of three positions over two samples that form one population,
  with the default thresholds; the reference base is A everywhere. The second of
  its three columns has sample 0 homozygous C/C, the others are all A/A.
\<close>

definition ld_example :: ldData where
  "ld_example =
     \<lparr>beg = 0, endp = 3, num_sites = 0, segsites = 0, types = [], pop_mask = [],
      pop_nsmpl = [], pop_cov = [], num_snps = [], sm_n = 2, sm_npops = 1,
      het_flag = False, outgroup_flag = False, ref_base = ''AAA'',
      min_snpQ = 25, min_rmsQ = 25, min_depth = 3, max_depth = 255, min_sites = 1 / 2,
      output_opt = 0, min_snps = 10, min_freq = 1, zns = [], omegamax = [],
      wallb = [], wallq = []\<rparr>"

definition col_ref :: "callword list" where
  "col_ref = [call_full 0 10 30 40, call_full 0 10 30 40]"

definition col_snp :: "callword list" where
  "col_snp = [call_full 5 10 40 40, call_full 0 10 30 40]"

text \<open>A position lies in the window \<open>[b, e)\<close>.\<close>

definition in_window :: "int \<Rightarrow> int \<Rightarrow> 32 word \<Rightarrow> bool" where
  "in_window b e pos = (b \<le> sint pos \<and> sint pos < e)"

section \<open>The statistics as the specification words them\<close>

text \<open>
  The definitions of this section follow the sentences of the specification, not
  the source; they are what the functions above are compared with. \<open>r2_spec\<close> is
  the squared correlation of two sites; \<open>pair_sum\<close> adds a function of two sites
  over all pairs \<open>i < j\<close> of a list.
\<close>

definition r2_spec :: "nat \<Rightarrow> nat \<Rightarrow> nat \<Rightarrow> nat \<Rightarrow> real" where
  "r2_spec n x0 x1 x11 =
     (real x0 * real x1 - real n * real x11)\<^sup>2
       / (real x0 * (real n - real x0) * real x1 * (real n - real x1))"

definition site_r2 :: "nat \<Rightarrow> 64 word \<Rightarrow> 64 word \<Rightarrow> real" where
  "site_r2 n a b = r2_spec n (bitcount64 a) (bitcount64 b) (bitcount64 (a AND b))"

fun pair_sum :: "('a \<Rightarrow> 'a \<Rightarrow> real) \<Rightarrow> 'a list \<Rightarrow> real" where
  "pair_sum f [] = 0"
| "pair_sum f (x # xs) = sum_list (map (f x) xs) + pair_sum f xs"

text \<open>The population-restricted types of the qualifying sites, in genomic order.\<close>

definition qualifying_sites :: "64 word list \<Rightarrow> 64 word \<Rightarrow> nat \<Rightarrow> nat \<Rightarrow> 64 word list" where
  "qualifying_sites ts pm n mf =
     filter (\<lambda>a. qualifies mf n (bitcount64 a)) (map (\<lambda>ty. ty AND pm) ts)"

text \<open>
  Zns: the sum of \<open>r2\<close> over all pairs of qualifying sites, divided by \<open>C(q, 2)\<close>;
  \<open>None\<close> (NA) with fewer than 2 qualifying sites.
\<close>

definition zns_spec :: "64 word list \<Rightarrow> 64 word \<Rightarrow> nat \<Rightarrow> nat \<Rightarrow> real option" where
  "zns_spec ts pm n mf =
     (let qs = qualifying_sites ts pm n mf
      in if length qs < 2 then None
         else Some (pair_sum (site_r2 n) qs / real (length qs choose 2)))"

text \<open>
  Omega-max: for the split point \<open>i\<close> the left block is the first \<open>i + 1\<close> qualifying
  sites, the right block the rest, and the three sums are those of this split alone;
  a split point whose \<open>sumBetween\<close> is 0 contributes no candidate.
\<close>

definition omega_spec_split :: "nat \<Rightarrow> 64 word list \<Rightarrow> nat \<Rightarrow> real option" where
  "omega_spec_split n qs i =
     (let l = take (i + 1) qs; r = drop (i + 1) qs;
          sumLeft = pair_sum (site_r2 n) l;
          sumRight = pair_sum (site_r2 n) r;
          sumBetween = sum_list (map (\<lambda>a. sum_list (map (site_r2 n a) r)) l)
      in if sumBetween = 0 then None
         else Some ((sumLeft + sumRight) / real ((length l choose 2) + (length r choose 2))
                      * (real (length l * length r) / sumBetween)))"

definition omega_spec_candidates :: "64 word list \<Rightarrow> 64 word \<Rightarrow> nat \<Rightarrow> nat \<Rightarrow> real list" where
  "omega_spec_candidates ts pm n mf =
     (let qs = qualifying_sites ts pm n mf
      in concat (map (\<lambda>i. case omega_spec_split n qs i of None \<Rightarrow> [] | Some w \<Rightarrow> [w])
                   [1..<length qs - 1]))"

section \<open>The split points of \<open>calc_omegamax\<close>, one by one\<close>

text \<open>
  \<open>omega_trace\<close> runs the partition loop of \<open>calc_omegamax\<close> and records, for each
  split point \<open>i\<close>, the three sums the loop holds there and the \<open>omega\<close> it computes
  from them (with \<open>omega_sums\<close> and \<open>omega_val\<close>, the loop's own steps). \<open>dmax\<close> is
  \<^verbatim>\<open>omegamax[j] = omega > omegamax[j] ? omega : omegamax[j]\<close>.
\<close>

definition dmax :: "dbl \<Rightarrow> dbl \<Rightarrow> dbl" where
  "dmax omax omega = (if dgt omega omax then omega else omax)"

fun omega_trace ::
  "r2mat \<Rightarrow> nat \<Rightarrow> dbl \<times> dbl \<times> dbl \<Rightarrow> nat list \<Rightarrow> (nat \<times> (dbl \<times> dbl \<times> dbl) \<times> dbl) list" where
  "omega_trace r2 nsnp su [] = []"
| "omega_trace r2 nsnp su (i # is) =
     (let su' = omega_sums r2 nsnp su i
      in (i, su', omega_val nsnp su' i) # omega_trace r2 nsnp su' is)"

definition omega_splits ::
  "64 word list \<Rightarrow> nat \<Rightarrow> 64 word \<Rightarrow> nat \<Rightarrow> nat \<Rightarrow> (nat \<times> (dbl \<times> dbl \<times> dbl) \<times> dbl) list" where
  "omega_splits ts segs pm n mf =
     (case omega_matrix ts segs pm n mf of
        (nsnp, r2) \<Rightarrow> omega_trace r2 (nat nsnp) (Fin 0, Fin 0, Fin 0) [1..<nat nsnp - 1])"

text \<open>
  What IEEE arithmetic gives for \<open>omega\<close> at a split point whose \<open>sumbetween\<close> is 0:
  plus infinity when \<open>sumleft + sumright\<close> is positive, NaN when it is 0.
\<close>

definition split_ok :: "nat \<times> (dbl \<times> dbl \<times> dbl) \<times> dbl \<Rightarrow> bool" where
  "split_ok e = (case e of (i, (sumleft, sumbetween, sumright), omega) \<Rightarrow>
     sumbetween = Fin 0 \<longrightarrow> omega = dinf (dsgn (dadd sumleft sumright)))"

section \<open>Qualifying sites of a window\<close>

text \<open>
  The number of sites of the buffer that qualify in a population: for Zns and
  Omega-max those whose derived count lies in \<open>[min_freq, n - min_freq]\<close>; for Wall's
  B and Q those whose population-specific pattern is neither empty nor the whole
  population (\<^verbatim>\<open>(type > 0) && (type < pop_mask[j])\<close>).
\<close>

definition site_qualifies :: "64 word list \<Rightarrow> 64 word \<Rightarrow> nat \<Rightarrow> nat \<Rightarrow> nat \<Rightarrow> bool" where
  "site_qualifies ts pm n mf j = qualifies mf n (bitcount64 (ts ! j AND pm))"

definition zns_qualifying :: "64 word list \<Rightarrow> nat \<Rightarrow> 64 word \<Rightarrow> nat \<Rightarrow> nat \<Rightarrow> nat" where
  "zns_qualifying ts segs pm n mf = length (filter (site_qualifies ts pm n mf) [0..<segs])"

definition wall_site_qualifies :: "nat \<Rightarrow> 64 word list \<Rightarrow> 64 word \<Rightarrow> nat \<Rightarrow> bool" where
  "wall_site_qualifies n ts pm i =
     (0 < fst (wall_types n (ts ! i) pm) \<and> fst (wall_types n (ts ! i) pm) < pm)"

definition wall_qualifying :: "nat \<Rightarrow> 64 word list \<Rightarrow> nat \<Rightarrow> 64 word \<Rightarrow> nat" where
  "wall_qualifying n ts segs pm = length (filter (wall_site_qualifies n ts pm) [0..<segs])"

text \<open>All the statistics of a population are printed as \<open>NA\<close>.\<close>

definition all_NA :: "field list \<Rightarrow> bool" where
  "all_NA fs = (fs \<noteq> [] \<and> list_all (\<lambda>f. f = NA) fs)"

text \<open>
  Two states of a window agree on everything the SNP counter is computed from.
\<close>

definition ld_same_inputs :: "'a ldData_scheme \<Rightarrow> 'a ldData_scheme \<Rightarrow> bool" where
  "ld_same_inputs t t' =
     (types t' = types t \<and> segsites t' = segsites t \<and> pop_mask t' = pop_mask t
      \<and> pop_nsmpl t' = pop_nsmpl t \<and> min_freq t' = min_freq t \<and> min_snps t' = min_snps t
      \<and> output_opt t' = output_opt t \<and> sm_npops t' = sm_npops t \<and> sm_n t' = sm_n t
      \<and> length (num_snps t') = length (num_snps t))"


text \<open>
  The example window with the threshold \<open>min_snps\<close> lowered to 1 and Wall's B and Q
  selected (\<open>-n 1 -o 2\<close> on the command line), and with \<open>min_snps = 0\<close> for Zns.
\<close>

definition ld_example_wall :: ldData where
  "ld_example_wall = ld_example\<lparr>output_opt := 2, min_snps := 1\<rparr>"

definition ld_example_zero :: ldData where
  "ld_example_zero = ld_example\<lparr>min_snps := 0\<rparr>"

subsection \<open>The loop of \<open>calc_sfs\<close> over the populations\<close>

text \<open>The second loop of \<open>calc_sfs\<close>, from a given state and over given populations.\<close>

definition calc_sfs_loop :: "'a sfsData_scheme option \<Rightarrow> nat list \<Rightarrow> 'a sfsData_scheme option" where
  "calc_sfs_loop r js = foldl (\<lambda>r i. case r of None \<Rightarrow> None | Some t' \<Rightarrow> calc_sfs_pop t' i) r js"

text \<open>Two states agree on what the threshold test reads and on the sizes of the arrays.\<close>

definition sfs_same :: "'a sfsData_scheme \<Rightarrow> 'a sfsData_scheme \<Rightarrow> bool" where
  "sfs_same s s' =
     (ns s' = ns s \<and> beg s' = beg s \<and> endp s' = endp s \<and> min_sites s' = min_sites s
      \<and> sm_npops s' = sm_npops s
      \<and> length (td s') = length (td s) \<and> length (fwh s') = length (fwh s))"

text \<open>
  The number of aligned sites of population \<open>i\<close> that \<open>calc_sfs\<close> compares with the
  threshold: what \<open>ns[i]\<close> held before, plus the sites counted in this window.
\<close>

definition sfs_aligned :: "'a sfsData_scheme \<Rightarrow> nat \<Rightarrow> nat" where
  "sfs_aligned t i = ns t ! i + count_aligned (pop_cov t) (num_sites t) i"

text \<open>
  An example window of three positions with the default \<open>min_sites = 0.5\<close>, over six
  samples: population 0 is samples 0 to 3, population 1 is samples 4 and 5. One site
  is aligned, in population 0 only (all four samples), and it is segregating: sample 0
  differs from the reference.
\<close>

definition sfs_example :: sfsData where
  "sfs_example = sfs_tables
     \<lparr>beg = 0, endp = 3, num_sites = 1, segsites = 1, types = [1, 0, 0],
      pop_mask = [0x0F, 0x30], pop_nsmpl = [4, 2], pop_cov = [1, 0, 0], num_snps = [0, 0],
      sm_n = 6, sm_npops = 2, het_flag = False, outgroup_flag = False, ref_base = ''AAA'',
      min_snpQ = 25, min_rmsQ = 25, min_depth = 3, max_depth = 255, min_sites = 1 / 2,
      ncov = [[4, 0, 0], [0, 0, 0]], ns = [0, 0], td = [Fin 0, Fin 0], fwh = [Fin 0, Fin 0],
      min_pop = 1, outidx = 0, outpop = 0, a1 = [], a2 = [], e1 = [], e2 = [],
      dw = [], hw = []\<rparr>"

text \<open>
  The same window with \<open>min_sites = 0.1\<close> (\<open>-k 0.1\<close> on the command line), and no site
  aligned in any population.
\<close>

definition sfs_example_empty :: sfsData where
  "sfs_example_empty =
     sfs_example\<lparr>min_sites := 1 / 10, num_sites := 0, segsites := 0, pop_cov := [0, 0, 0],
                 ncov := [[0, 0, 0], [0, 0, 0]]\<rparr>"

text \<open>The example after the first loop of \<open>calc_sfs\<close>, and after the second.\<close>

definition sfs_example_counted :: sfsData where
  "sfs_example_counted = sfs_example\<lparr>ns := [1, 0]\<rparr>"

definition sfs_example_result :: sfsData where
  "sfs_example_result =
     sfs_example_counted\<lparr>num_snps := [1, 0], td := [Fin 0, NaN], fwh := [Fin 0, NaN]\<rparr>"

section \<open>Properties of \<open>gl2cns\<close>\<close>

subsection \<open>Bit fields of a packed word\<close>

lemma mask16_numeral: "(0xffff :: 64 word) = mask 16"
  by (simp add: mask_eq_exp_minus_1)

lemma mask8_numeral: "(0xff :: 64 word) = mask 8"
  by (simp add: mask_eq_exp_minus_1)

lemma unat_field_of_nat:
  assumes "n + m \<le> 64"
  shows "unat (drop_bit n (of_nat X :: 64 word) AND mask m) = (X div 2 ^ n) mod 2 ^ m"
proof -
  have "unat (drop_bit n (of_nat X :: 64 word) AND mask m)
          = take_bit m (drop_bit n (take_bit 64 X))"
    by (simp only: unsigned_take_bit_eq unat_drop_bit_eq unat_of_nat flip: take_bit_eq_mask)
       (simp add: take_bit_eq_mod)
  also have "\<dots> = take_bit (min m (64 - n)) (drop_bit n X)"
    by (simp add: drop_bit_take_bit)
  also have "min m (64 - n) = m"
    using assms by simp
  finally show ?thesis
    by (simp add: drop_bit_eq_div take_bit_eq_mod)
qed

lemma div_add_mult: "a < c \<Longrightarrow> (a + b * c) div c = (b::nat)"
  by simp

lemma mod_add_mult: "a < c \<Longrightarrow> (a + b * c) mod c = (a::nat)"
  by simp

lemma packed_div32:
  fixes g k m :: nat
  assumes "k < 2 ^ 16" "m < 2 ^ 8"
  shows "(g * 2 ^ 32 + k * 2 ^ 16 + m * 2 ^ 8) div 2 ^ 32 = g"
proof -
  have "k * 2 ^ 16 + m * 2 ^ 8 < (2 ^ 32 :: nat)"
    using assms by simp
  then have "(k * 2 ^ 16 + m * 2 ^ 8 + g * 2 ^ 32) div 2 ^ 32 = g"
    by (rule div_add_mult)
  then show ?thesis
    by (simp add: add.commute add.left_commute)
qed

lemma packed_div16:
  fixes g k m :: nat
  assumes "k < 2 ^ 16" "m < 2 ^ 8"
  shows "(g * 2 ^ 32 + k * 2 ^ 16 + m * 2 ^ 8) div 2 ^ 16 mod 2 ^ 16 = k"
proof -
  have e: "g * 2 ^ 32 + k * 2 ^ 16 + m * 2 ^ 8 = m * 2 ^ 8 + (k + g * 2 ^ 16) * 2 ^ 16"
    by (simp add: algebra_simps)
  have "m * 2 ^ 8 < (2 ^ 16 :: nat)"
    using assms by simp
  then have "(m * 2 ^ 8 + (k + g * 2 ^ 16) * 2 ^ 16) div 2 ^ 16 = k + g * 2 ^ 16"
    by (rule div_add_mult)
  then show ?thesis
    using assms(1) unfolding e by (simp only: mod_add_mult)
qed

lemma packed_div8:
  fixes g k m :: nat
  assumes "m < 2 ^ 8"
  shows "(g * 2 ^ 32 + k * 2 ^ 16 + m * 2 ^ 8) div 2 ^ 8 mod 2 ^ 8 = m"
proof -
  have e: "g * 2 ^ 32 + k * 2 ^ 16 + m * 2 ^ 8 = 0 + (m + (g * 2 ^ 16 + k) * 2 ^ 8) * 2 ^ 8"
    by (simp add: algebra_simps)
  have "(0 + (m + (g * 2 ^ 16 + k) * 2 ^ 8) * 2 ^ 8) div 2 ^ 8 = m + (g * 2 ^ 16 + k) * 2 ^ 8"
    by (rule div_add_mult) simp
  then show ?thesis
    using assms unfolding e by (simp only: mod_add_mult)
qed

lemma gl2cns_pack_of_nat:
  assumes "0 \<le> g"
  shows "gl2cns_pack g k m = of_nat (nat g * 2 ^ 32 + unat k * 2 ^ 16 + m * 2 ^ 8)"
proof -
  have "(of_int g :: 64 word) = of_nat (nat g)"
    using assms by simp
  then show ?thesis
    by (simp add: gl2cns_pack_def Let_def push_bit_eq_mult)
qed

subsection \<open>Rounding\<close>

text \<open>\<open>ilog2\<close> is the binary exponent.\<close>

lemma ilog2_bounds:
  assumes "0 < x"
  shows "power_int 2 (ilog2 x) \<le> x" and "x < power_int 2 (ilog2 x + 1)"
proof -
  have "power_int 2 (ilog2 x) \<le> x \<and> x < power_int 2 (ilog2 x + 1)"
  proof (cases "1 \<le> x")
    case True
    define n where "n = nat (bitlen \<lfloor>x\<rfloor> - 1)"
    have p: "0 < \<lfloor>x\<rfloor>"
      using True by simp
    then have b: "1 \<le> bitlen \<lfloor>x\<rfloor>"
      by (auto simp: bitlen_alt_def)
    then have n: "bitlen \<lfloor>x\<rfloor> - 1 = int n" "nat (bitlen \<lfloor>x\<rfloor>) = Suc n"
      by (simp_all add: n_def)
    have "(2 :: int) ^ n \<le> \<lfloor>x\<rfloor>" "\<lfloor>x\<rfloor> + 1 \<le> 2 ^ Suc n"
      using bitlen_bounds [OF p] unfolding n(2) n_def by simp_all
    then have "real_of_int (2 ^ n) \<le> real_of_int \<lfloor>x\<rfloor>"
      "real_of_int (\<lfloor>x\<rfloor> + 1) \<le> real_of_int (2 ^ Suc n)"
      by (simp_all only: of_int_le_iff)
    moreover have "real_of_int \<lfloor>x\<rfloor> \<le> x" "x < real_of_int (\<lfloor>x\<rfloor> + 1)"
      by linarith+
    moreover have "real_of_int (2 ^ n) = 2 ^ n" "real_of_int (2 ^ Suc n) = 2 ^ Suc n"
      by simp_all
    ultimately have "2 ^ n \<le> x" "x < 2 ^ Suc n"
      by linarith+
    moreover have "ilog2 x = int n"
      using True n by (simp add: ilog2_def)
    moreover have "int n + 1 = int (Suc n)"
      by simp
    ultimately show ?thesis
      by (simp only: power_int_of_nat)
  next
    case False
    let ?m = "\<lceil>1 / x\<rceil> - 1"
    define n where "n = nat (bitlen ?m - 1)"
    have y: "1 < 1 / x"
      using False assms by simp
    then have p: "0 < ?m"
      by (simp add: less_ceiling_iff)
    then have b: "1 \<le> bitlen ?m"
      by (auto simp: bitlen_alt_def)
    then have n: "bitlen ?m = int (Suc n)" "nat (bitlen ?m) = Suc n" "nat (bitlen ?m - 1) = n"
      by (simp_all add: n_def)
    have "(2 :: int) ^ n \<le> ?m" "?m + 1 \<le> 2 ^ Suc n"
      using bitlen_bounds [OF p] unfolding n(2,3) by simp_all
    then have "real_of_int (2 ^ n) \<le> real_of_int ?m"
      "real_of_int (?m + 1) \<le> real_of_int (2 ^ Suc n)"
      by (simp_all only: of_int_le_iff)
    moreover have "real_of_int ?m < 1 / x" "1 / x \<le> real_of_int (?m + 1)"
      by linarith+
    moreover have "real_of_int (2 ^ n) = 2 ^ n" "real_of_int (2 ^ Suc n) = 2 ^ Suc n"
      by simp_all
    ultimately have "2 ^ n < 1 / x" "1 / x \<le> 2 ^ Suc n"
      by linarith+
    then have r: "x < 1 / 2 ^ n" "1 / 2 ^ Suc n \<le> x"
      using assms by (simp_all add: field_simps)
    have e: "ilog2 x = - int (Suc n)" "ilog2 x + 1 = - int n"
      using False n(1) by (simp_all add: ilog2_def)
    have "power_int (2 :: real) (- int (Suc n)) = 1 / 2 ^ Suc n"
      "power_int (2 :: real) (- int n) = 1 / 2 ^ n"
      by (simp_all only: power_int_minus power_int_of_nat inverse_eq_divide)
    then show ?thesis
      unfolding e using r by simp
  qed
  then show "power_int 2 (ilog2 x) \<le> x" and "x < power_int 2 (ilog2 x + 1)"
    by simp_all
qed

text \<open>Rounding to an integer moves a number by at most one half.\<close>

lemma round_even_error: "\<bar>real_of_int (round_even x) - x\<bar> \<le> 1 / 2"
  unfolding round_even_def Let_def by (auto split: if_splits)

lemma round_even_nonneg: "0 \<le> x \<Longrightarrow> 0 \<le> round_even x"
  unfolding round_even_def Let_def by (auto split: if_splits)

text \<open>
  The rounded number is an integer multiple of the unit in the last place of its
  argument, at most half a unit away from it, and of the same sign.
\<close>

lemma ieee_round_error:
  "\<bar>ieee_round p emin x - x\<bar> \<le> power_int 2 (max (ilog2 \<bar>x\<bar>) emin - int p + 1) / 2"
proof (cases "x = 0")
  case True
  then show ?thesis
    by (simp add: ieee_round_def)
next
  case False
  let ?u = "power_int 2 (max (ilog2 \<bar>x\<bar>) emin - int p + 1) :: real"
  have u: "0 < ?u"
    by simp
  have "real_of_int (round_even (x / ?u)) * ?u - x
          = (real_of_int (round_even (x / ?u)) - x / ?u) * ?u"
    using u by (simp add: left_diff_distrib)
  then have "\<bar>real_of_int (round_even (x / ?u)) * ?u - x\<bar>
          = \<bar>real_of_int (round_even (x / ?u)) - x / ?u\<bar> * ?u"
    using u by (simp only: abs_mult abs_of_pos)
  also have "\<dots> \<le> 1 / 2 * ?u"
    by (rule mult_right_mono [OF round_even_error]) simp
  finally show ?thesis
    using False by (simp add: ieee_round_def Let_def)
qed

lemma ieee_round_nonneg:
  assumes "0 \<le> x"
  shows "0 \<le> ieee_round p emin x"
proof -
  have "0 \<le> round_even (x / power_int 2 (max (ilog2 \<bar>x\<bar>) emin - int p + 1))"
    by (rule round_even_nonneg) (use assms in simp)
  then show ?thesis
    by (simp add: ieee_round_def Let_def)
qed

subsection \<open>The scan finds the minimum and the second minimum\<close>

lemma take2_insort:
  assumes "sorted ys" "take 2 ys = [a, b]"
  shows "take 2 (insort x ys)
           = (if x < a then [x, a] else if x < b then [a, x] else [a, (b::real)])"
proof -
  obtain zs where ys: "ys = a # b # zs"
    using assms(2) by (cases ys; cases "tl ys") auto
  have "a \<le> b"
    using assms(1) ys by simp
  then show ?thesis
    unfolding ys by auto
qed

lemma sort_snoc: "sort (xs @ [x]) = insort x (sort (xs :: real list))"
  by (rule properties_for_sort) (simp_all add: sorted_insort)

lemma gl2cns_scan_fold:
  fixes ps :: "(nat \<times> nat) list"
  assumes "mn0 \<le> mx0" "foldl (gl2cns_step q) (i0, mn0, mx0) ps = (ij, mn, mx)"
  shows "take 2 (sort (mn0 # mx0 # map (\<lambda>p. q ! gl2cns_index p) ps)) = [mn, mx]
       \<and> ((ij = i0 \<and> mn = mn0) \<or> (ij \<in> gl2cns_index ` set ps \<and> q ! ij = mn))"
  using assms(2)
proof (induction ps arbitrary: ij mn mx rule: rev_induct)
  case Nil
  then show ?case
    using assms(1) by simp
next
  case (snoc p ps)
  obtain ij' mn' mx' where st: "foldl (gl2cns_step q) (i0, mn0, mx0) ps = (ij', mn', mx')"
    by (cases "foldl (gl2cns_step q) (i0, mn0, mx0) ps") auto
  note ih = snoc.IH [OF st]
  let ?c = "q ! gl2cns_index p"
  let ?ys = "sort (mn0 # mx0 # map (\<lambda>p. q ! gl2cns_index p) ps)"
  have s: "sort (mn0 # mx0 # map (\<lambda>p. q ! gl2cns_index p) (ps @ [p])) = insort ?c ?ys"
    using sort_snoc [of "mn0 # mx0 # map (\<lambda>p. q ! gl2cns_index p) ps" ?c] by simp
  have srt: "sorted ?ys"
    by (rule sorted_sort)
  have tk: "take 2 ?ys = [mn', mx']"
    using ih by blast
  have t: "take 2 (insort ?c ?ys)
             = (if ?c < mn' then [?c, mn'] else if ?c < mx' then [mn', ?c] else [mn', mx'])"
    by (rule take2_insort [OF srt tk])
  have step: "gl2cns_step q (ij', mn', mx') p = (ij, mn, mx)"
    using snoc.prems st by simp
  have ih2: "(ij' = i0 \<and> mn' = mn0) \<or> (ij' \<in> gl2cns_index ` set ps \<and> q ! ij' = mn')"
    using ih by blast
  show ?case
    unfolding s t using step ih2 by (auto simp: Let_def split: if_splits)
qed

lemma gl2cns_pairs_eq:
  "gl2cns_pairs = [(0, 0), (0, 1), (0, 2), (0, 3), (1, 1), (1, 2), (1, 3), (2, 2), (2, 3), (3, 3)]"
  by (simp add: gl2cns_pairs_def NBASES_def upt_rec)

lemma gl2cns_indices_eq: "map gl2cns_index gl2cns_pairs = [0, 1, 2, 3, 5, 6, 7, 10, 11, 15]"
  unfolding gl2cns_pairs_eq by (simp add: gl2cns_index_def push_bit_eq_mult)

lemma sort_top2:
  fixes xs :: "real list"
  assumes "list_all (\<lambda>c. c \<le> F) xs" "2 \<le> length xs"
  shows "take 2 (sort (F # F # xs)) = take 2 (sort xs)"
proof -
  have "sort (F # F # xs) = sort xs @ [F, F]"
  proof (rule properties_for_sort)
    show "mset (sort xs @ [F, F]) = mset (F # F # xs)"
      by simp
    show "sorted (sort xs @ [F, F])"
      using assms(1) by (auto simp: sorted_append list_all_iff)
  qed
  then show ?thesis
    using assms(2) by simp
qed

lemma gl2cns_scan_sorted:
  assumes "list_all (\<lambda>c. c \<le> FLT_MAX) (gl2cns_costs q)"
  shows "take 2 (sort (gl2cns_costs q)) = [fst (snd (gl2cns_scan q)), snd (snd (gl2cns_scan q))]"
    and "fst (gl2cns_scan q) \<in> set (map gl2cns_index gl2cns_pairs)"
    and "q ! fst (gl2cns_scan q) = fst (snd (gl2cns_scan q))"
proof -
  obtain ij mn mx where sc: "gl2cns_scan q = (ij, mn, mx)"
    by (cases "gl2cns_scan q") auto
  then have f: "foldl (gl2cns_step q) (0, FLT_MAX, FLT_MAX) gl2cns_pairs = (ij, mn, mx)"
    by (simp add: gl2cns_scan_def)
  have inv: "take 2 (sort (FLT_MAX # FLT_MAX # gl2cns_costs q)) = [mn, mx]
       \<and> ((ij = 0 \<and> mn = FLT_MAX) \<or> (ij \<in> gl2cns_index ` set gl2cns_pairs \<and> q ! ij = mn))"
    using gl2cns_scan_fold [OF order_refl f] by (simp add: gl2cns_costs_def)
  have len: "2 \<le> length (gl2cns_costs q)"
    by (simp add: gl2cns_costs_def gl2cns_pairs_eq)
  have top: "take 2 (sort (gl2cns_costs q)) = [mn, mx]"
    using inv sort_top2 [OF assms len] by simp
  show "take 2 (sort (gl2cns_costs q)) = [fst (snd (gl2cns_scan q)), snd (snd (gl2cns_scan q))]"
    using top sc by simp
  have zero_in: "(0::nat) \<in> gl2cns_index ` set gl2cns_pairs"
    using gl2cns_indices_eq by (metis list.set_intros(1) set_map)
  have q0: "q ! 0 \<in> set (gl2cns_costs q)"
    by (simp add: gl2cns_costs_def gl2cns_pairs_eq gl2cns_index_def)
  have mn_le: "mn \<le> q ! 0"
  proof -
    obtain zs where ys: "sort (gl2cns_costs q) = mn # mx # zs"
      using top by (cases "sort (gl2cns_costs q)"; cases "tl (sort (gl2cns_costs q))") auto
    have "sorted (sort (gl2cns_costs q))"
      by (rule sorted_sort)
    then have "sorted (mn # mx # zs)"
      unfolding ys .
    moreover have "set (sort (gl2cns_costs q)) = set (gl2cns_costs q)"
      by simp
    then have "q ! 0 \<in> set (mn # mx # zs)"
      using q0 unfolding ys by simp
    ultimately show ?thesis
      by auto
  qed
  have q0_le: "q ! 0 \<le> FLT_MAX"
    using assms q0 by (simp add: list_all_iff)
  show "fst (gl2cns_scan q) \<in> set (map gl2cns_index gl2cns_pairs)"
    using inv zero_in sc by auto
  show "q ! fst (gl2cns_scan q) = fst (snd (gl2cns_scan q))"
    using inv mn_le q0_le sc by auto
qed

lemma gl2cns_min_ij_range: "fst (gl2cns_scan q) \<in> set (map gl2cns_index gl2cns_pairs)"
proof -
  obtain ij mn mx where sc: "gl2cns_scan q = (ij, mn, mx)"
    by (cases "gl2cns_scan q") auto
  then have f: "foldl (gl2cns_step q) (0, FLT_MAX, FLT_MAX) gl2cns_pairs = (ij, mn, mx)"
    by (simp add: gl2cns_scan_def)
  have "ij = 0 \<or> ij \<in> gl2cns_index ` set gl2cns_pairs"
    using gl2cns_scan_fold [OF order_refl f] by blast
  moreover have "(0::nat) \<in> set (map gl2cns_index gl2cns_pairs)"
    unfolding gl2cns_indices_eq by simp
  ultimately show ?thesis
    using sc by auto
qed

lemma gl2cns_min_ij_less: "fst (gl2cns_scan q) < 2 ^ 8"
  using gl2cns_min_ij_range [of q] unfolding gl2cns_indices_eq by auto

lemma unat_k16: "unat (k :: 16 word) < 2 ^ 16"
  using unsigned_less [of k] by simp

lemma gl2cns_pack_num_reads:
  assumes "0 \<le> g" "m < 2 ^ 8"
  shows "cw_num_reads (gl2cns_pack g k m) = ucast k"
proof -
  let ?X = "nat g * 2 ^ 32 + unat k * 2 ^ 16 + m * 2 ^ 8"
  have "unat (cw_num_reads (gl2cns_pack g k m)) = (?X div 2 ^ 16) mod 2 ^ 16"
    unfolding cw_num_reads_def mask16_numeral gl2cns_pack_of_nat [OF assms(1)]
    by (rule unat_field_of_nat) simp
  also have "\<dots> = unat k"
    by (rule packed_div16 [OF unat_k16 assms(2)])
  finally have "unat (cw_num_reads (gl2cns_pack g k m)) = unat (ucast k :: 64 word)"
    by (simp add: unsigned_ucast_eq take_bit_nat_eq_self_iff [THEN iffD2] unat_k16
          order_less_trans [OF unat_k16])
  then show ?thesis
    by (simp only: word_unat_eq_iff)
qed

lemma gl2cns_pack_genotype:
  assumes "0 \<le> g" "m < 2 ^ 8"
  shows "cw_genotype (gl2cns_pack g k m) = of_nat m"
proof -
  let ?X = "nat g * 2 ^ 32 + unat k * 2 ^ 16 + m * 2 ^ 8"
  have "unat (cw_genotype (gl2cns_pack g k m)) = (?X div 2 ^ 8) mod 2 ^ 8"
    unfolding cw_genotype_def mask8_numeral gl2cns_pack_of_nat [OF assms(1)]
    by (rule unat_field_of_nat) simp
  also have "\<dots> = m"
    by (rule packed_div8 [OF assms(2)])
  finally have "unat (cw_genotype (gl2cns_pack g k m)) = unat (of_nat m :: 64 word)"
    using assms(2) by (simp add: unat_of_nat)
  then show ?thesis
    by (simp only: word_unat_eq_iff)
qed

lemma gl2cns_pack_snp_quality:
  assumes "0 \<le> g" "m < 2 ^ 8"
  shows "uint (cw_snp_quality (gl2cns_pack g k m)) = g mod 2 ^ 16"
proof -
  let ?X = "nat g * 2 ^ 32 + unat k * 2 ^ 16 + m * 2 ^ 8"
  have "unat (cw_snp_quality (gl2cns_pack g k m)) = (?X div 2 ^ 32) mod 2 ^ 16"
    unfolding cw_snp_quality_def mask16_numeral gl2cns_pack_of_nat [OF assms(1)]
    by (rule unat_field_of_nat) simp
  also have "?X div 2 ^ 32 = nat g"
    by (rule packed_div32 [OF unat_k16 assms(2)])
  finally have "int (unat (cw_snp_quality (gl2cns_pack g k m))) = int (nat g mod 2 ^ 16)"
    by simp
  also have "\<dots> = g mod 2 ^ 16"
    using assms(1) by (simp add: zmod_int)
  finally show ?thesis
    by simp
qed

text \<open>
  The value that is converted: the difference of the two smallest costs, rounded to
  a \<^verbatim>\<open>float\<close>, plus the \<^verbatim>\<open>double\<close> nearest to 0.499, rounded to a \<^verbatim>\<open>double\<close>. It is not
  negative.
\<close>

lemma gl2cns_rounded_sorted:
  assumes "list_all (\<lambda>c. c \<le> FLT_MAX) (gl2cns_costs q)"
  shows "gl2cns_rounded q
           = double_round (float_round (sort (gl2cns_costs q) ! 1 - sort (gl2cns_costs q) ! 0)
               + double_round (499 / 1000))"
    and "0 \<le> gl2cns_rounded q"
proof -
  obtain ij mn mx where sc: "gl2cns_scan q = (ij, mn, mx)"
    by (cases "gl2cns_scan q") auto
  have "take 2 (sort (gl2cns_costs q)) = [mn, mx]"
    using gl2cns_scan_sorted(1) [OF assms] sc by simp
  then obtain zs where ys: "sort (gl2cns_costs q) = mn # mx # zs"
    by (cases "sort (gl2cns_costs q)"; cases "tl (sort (gl2cns_costs q))") auto
  show "gl2cns_rounded q
           = double_round (float_round (sort (gl2cns_costs q) ! 1 - sort (gl2cns_costs q) ! 0)
               + double_round (499 / 1000))"
    by (simp add: gl2cns_rounded_def sc ys)
  have "sorted (sort (gl2cns_costs q))"
    by (rule sorted_sort)
  then have "mn \<le> mx"
    unfolding ys by simp
  then have d: "0 \<le> float_round (mx - mn)"
    unfolding float_round_def by (intro ieee_round_nonneg) simp
  have c: "0 \<le> double_round (499 / 1000)"
    unfolding double_round_def by (intro ieee_round_nonneg) simp
  have "0 \<le> ieee_round 53 (- 1022) (float_round (mx - mn) + double_round (499 / 1000))"
    by (rule ieee_round_nonneg) (use c d in simp)
  then show "0 \<le> gl2cns_rounded q"
    by (simp add: gl2cns_rounded_def sc double_round_def)
qed

lemma gl2cns_min_cost:
  assumes "list_all (\<lambda>c. c \<le> FLT_MAX) (gl2cns_costs q)"
  shows "q ! fst (gl2cns_scan q) = sort (gl2cns_costs q) ! 0"
proof -
  obtain ij mn mx where sc: "gl2cns_scan q = (ij, mn, mx)"
    by (cases "gl2cns_scan q") auto
  have "take 2 (sort (gl2cns_costs q)) = [mn, mx]"
    using gl2cns_scan_sorted(1) [OF assms] sc by simp
  then obtain zs where "sort (gl2cns_costs q) = mn # mx # zs"
    by (cases "sort (gl2cns_costs q)"; cases "tl (sort (gl2cns_costs q))") auto
  then show ?thesis
    using gl2cns_scan_sorted(3) [OF assms] sc by simp
qed

text \<open>
  Claim C3, as amended. \<open>gl2cns\<close> is a function of the likelihood array and the depth
  (equal arguments give the same call word). For every array of finite costs and
  every depth, if the rounded gap is below \<open>2^64\<close> (C defines its conversion to
  \<^verbatim>\<open>unsigned long long\<close> only then), \<open>gl2cns\<close> returns a word whose fields are: the
  depth passed in (bits 16-31); the index \<open>i << 2 | j\<close> of a genotype pair of minimum
  cost (bits 8-15); and in bits 32-47 the rounded gap reduced modulo \<open>2^16\<close>. The
  rounded gap is the difference of the second-minimum and the minimum cost, computed
  in \<^verbatim>\<open>float\<close>, plus 0.499, computed in \<^verbatim>\<open>double\<close>, truncated to an integer. The source
  shifts it without clamping it, so the field holds the rounded gap itself exactly
  when that is below 65536.
\<close>

theorem gl2cns_roundtrip:
  assumes "list_all (\<lambda>c. c \<le> FLT_MAX) (gl2cns_costs q)" and "gl2cns_rounded q < 2 ^ 64"
  shows "\<exists>w. gl2cns q k = Some w
       \<and> (q' = q \<and> k' = k \<longrightarrow> gl2cns q' k' = Some w)
       \<and> cw_num_reads w = ucast k
       \<and> cw_genotype w = of_nat (fst (gl2cns_scan q))
       \<and> fst (gl2cns_scan q) \<in> set (map gl2cns_index gl2cns_pairs)
       \<and> q ! fst (gl2cns_scan q) = sort (gl2cns_costs q) ! 0
       \<and> gl2cns_rounded q
           = double_round (float_round (sort (gl2cns_costs q) ! 1 - sort (gl2cns_costs q) ! 0)
               + double_round (499 / 1000))
       \<and> uint (cw_snp_quality w) = \<lfloor>gl2cns_rounded q\<rfloor> mod 2 ^ 16
       \<and> (gl2cns_rounded q < 2 ^ 16 \<longrightarrow> uint (cw_snp_quality w) = \<lfloor>gl2cns_rounded q\<rfloor>)"
proof -
  let ?g = "\<lfloor>gl2cns_rounded q\<rfloor>"
  let ?w = "gl2cns_pack ?g k (fst (gl2cns_scan q))"
  have g: "0 \<le> ?g"
    using gl2cns_rounded_sorted(2) [OF assms(1)] by simp
  have w: "gl2cns q k = Some ?w"
    using assms(2) by (simp add: gl2cns_def gl2cns_gap_def)
  note m = gl2cns_min_ij_less [of q]
  have sq: "uint (cw_snp_quality ?w) = ?g mod 2 ^ 16"
    by (rule gl2cns_pack_snp_quality [OF g m])
  have small: "uint (cw_snp_quality ?w) = ?g" if "gl2cns_rounded q < 2 ^ 16"
  proof -
    have "?g < 2 ^ 16"
      using that by (simp add: floor_less_iff)
    then show ?thesis
      using sq g by simp
  qed
  show ?thesis
    using w gl2cns_pack_num_reads [OF g m, of k] gl2cns_pack_genotype [OF g m, of k]
      gl2cns_min_ij_range [of q] gl2cns_min_cost [OF assms(1)]
      gl2cns_rounded_sorted(1) [OF assms(1)] sq small
    by blast
qed

text \<open>
  Two examples. In the first the gap 7.25 is stored as 7. In the second the exact
  difference of the two costs plus 0.499 is above 31, but the difference computed in
  \<^verbatim>\<open>float\<close> plus 0.499 is below 31, and 30 is stored.
\<close>

lemma gl2cns_example_costs:
  "gl2cns_costs gl2cns_example = [30, 5, 30, 30, 49 / 4, 40, 50, 60, 70, 80]"
  by (simp add: gl2cns_costs_def gl2cns_pairs_eq gl2cns_index_def gl2cns_example_def)

lemma gl2cns_example_scan:
  "gl2cns_scan gl2cns_example = (1, 5, 49 / 4)"
  by (simp add: gl2cns_scan_def gl2cns_pairs_eq gl2cns_index_def gl2cns_example_def
        FLT_MAX_def)

lemma gl2cns_rounding_costs:
  "gl2cns_costs gl2cns_rounding
     = [8388649 / 2 ^ 25, 16122381 / 2 ^ 19, 16122381 / 2 ^ 19, 16122381 / 2 ^ 19,
        16122381 / 2 ^ 19, 16122381 / 2 ^ 19, 16122381 / 2 ^ 19, 16122381 / 2 ^ 19,
        16122381 / 2 ^ 19, 16122381 / 2 ^ 19]"
  by (simp add: gl2cns_costs_def gl2cns_pairs_eq gl2cns_index_def gl2cns_rounding_def)

lemma gl2cns_rounding_scan:
  "gl2cns_scan gl2cns_rounding = (0, 8388649 / 2 ^ 25, 16122381 / 2 ^ 19)"
  by (simp add: gl2cns_scan_def gl2cns_pairs_eq gl2cns_index_def gl2cns_rounding_def
        FLT_MAX_def)

lemma gl2cns_example_rounded:
  "\<lfloor>gl2cns_rounded gl2cns_example\<rfloor> = 7" "gl2cns_rounded gl2cns_example < 2 ^ 16"
  "\<lfloor>gl2cns_rounded gl2cns_rounding\<rfloor> = 30" "gl2cns_rounded gl2cns_rounding < 2 ^ 16"
  "\<lfloor>(16122381 / 2 ^ 19 - 8388649 / 2 ^ 25 + 499 / 1000 :: real)\<rfloor> = 31"
  by code_simp+

theorem gl2cns_roundtrip_witness:
  "list_all (\<lambda>c. c \<le> FLT_MAX) (gl2cns_costs gl2cns_example)
   \<and> gl2cns_rounded gl2cns_example < 2 ^ 64
   \<and> (\<exists>w. gl2cns gl2cns_example 23 = Some w
         \<and> cw_num_reads w = 23 \<and> cw_genotype w = 1 \<and> uint (cw_snp_quality w) = 7)
   \<and> list_all (\<lambda>c. c \<le> FLT_MAX) (gl2cns_costs gl2cns_rounding)
   \<and> gl2cns_rounded gl2cns_rounding < 2 ^ 64
   \<and> (\<exists>w. gl2cns gl2cns_rounding 23 = Some w
         \<and> cw_num_reads w = 23 \<and> cw_genotype w = 0 \<and> uint (cw_snp_quality w) = 30)"
proof -
  have h: "list_all (\<lambda>c. c \<le> FLT_MAX) (gl2cns_costs gl2cns_example)"
    "list_all (\<lambda>c. c \<le> FLT_MAX) (gl2cns_costs gl2cns_rounding)"
    unfolding gl2cns_example_costs gl2cns_rounding_costs by (simp_all add: FLT_MAX_def)
  have b: "gl2cns_rounded gl2cns_example < 2 ^ 64" "gl2cns_rounded gl2cns_rounding < 2 ^ 64"
    using gl2cns_example_rounded(2,4) by simp_all
  note r1 = gl2cns_roundtrip [OF h(1) b(1), of 23 gl2cns_example 23]
  note r2 = gl2cns_roundtrip [OF h(2) b(2), of 23 gl2cns_rounding 23]
  have e1: "\<exists>w. gl2cns gl2cns_example 23 = Some w
         \<and> cw_num_reads w = 23 \<and> cw_genotype w = 1 \<and> uint (cw_snp_quality w) = 7"
    using r1 gl2cns_example_rounded(1,2) by (auto simp: gl2cns_example_scan)
  have e2: "\<exists>w. gl2cns gl2cns_rounding 23 = Some w
         \<and> cw_num_reads w = 23 \<and> cw_genotype w = 0 \<and> uint (cw_snp_quality w) = 30"
    using r2 gl2cns_example_rounded(3,4) by (auto simp: gl2cns_rounding_scan)
  show ?thesis
    using h b e1 e2 by blast
qed

lemma gl2cns_overflow_scan: "gl2cns_scan gl2cns_overflow = (0, 0, 70000)"
  by (simp add: gl2cns_scan_def gl2cns_pairs_eq gl2cns_index_def gl2cns_overflow_def
        FLT_MAX_def)

lemma gl2cns_overflow_gap: "gl2cns_gap gl2cns_overflow = Some 70000"
  by code_simp

text \<open>
  Claim C3 as stated fails: with costs \<open>0\<close> for A/A and \<open>70000\<close> elsewhere the rounded gap
  is \<open>70000\<close>; the confidence field holds \<open>70000 mod 65536 = 4464\<close>, not the clamped
  \<open>65535\<close>, and the excess sets bit 48, in the field of the RMS mapping quality.
\<close>

theorem gl2cns_no_clamp:
  "gl2cns_gap gl2cns_overflow = Some 70000
   \<and> gl2cns gl2cns_overflow 7 = Some 300647711178752
   \<and> cw_snp_quality 300647711178752 = 4464
   \<and> cw_snp_quality 300647711178752 \<noteq> of_int (min 65535 70000)
   \<and> cw_rms 300647711178752 = 1"
proof -
  have w: "gl2cns gl2cns_overflow 7 = Some 300647711178752"
    by (simp add: gl2cns_def gl2cns_pack_def gl2cns_overflow_scan gl2cns_overflow_gap)
  show ?thesis
    unfolding w gl2cns_overflow_gap by (simp add: cw_snp_quality_def cw_rms_def)
qed

section \<open>Properties of \<open>segBase\<close>\<close>

lemma cw_allele1_less: "cw_allele1 c < 4"
proof -
  have "drop_bit 2 (cw_genotype c) AND 3 \<le> (3 :: 64 word)"
    by (rule word_and_le1)
  then have "unat (drop_bit 2 (cw_genotype c) AND 3) \<le> unat (3 :: 64 word)"
    by (simp only: word_le_nat_alt)
  then show ?thesis
    by (simp add: cw_allele1_def)
qed

text \<open>
  After the first \<open>i\<close> samples the counters hold, for each base, the number of tallied
  calls with that base among the first \<open>i\<close> entries of the array as it was passed in:
  the loop writes \<open>cb[i]\<close> only after it has read it, and never reads it again.
\<close>

lemma segBase_loop:
  assumes "i \<le> length cb" "length bc = 4"
  shows "\<exists>cb' bc'. foldl (segBase_step iupac iupac_rev ref min_snpq) (cb, bc) [0..<i] = (cb', bc')
           \<and> length cb' = length cb \<and> length bc' = 4
           \<and> (\<forall>j. i \<le> j \<longrightarrow> cb' ! j = cb ! j)
           \<and> (\<forall>b < 4. bc' ! b = bc ! b
                 + int (length (filter (\<lambda>c. segBase_tallied iupac ref min_snpq c \<and> cw_allele1 c = b)
                                  (take i cb))))"
  using assms(1)
proof (induction i)
  case 0
  then show ?case
    using assms(2) by simp
next
  case (Suc i)
  then have i: "i < length cb"
    by simp
  from Suc obtain cb' bc' where
    f: "foldl (segBase_step iupac iupac_rev ref min_snpq) (cb, bc) [0..<i] = (cb', bc')"
    and l: "length cb' = length cb" "length bc' = 4"
    and u: "\<forall>j. i \<le> j \<longrightarrow> cb' ! j = cb ! j"
    and c: "\<forall>b < 4. bc' ! b = bc ! b
                 + int (length (filter (\<lambda>c. segBase_tallied iupac ref min_snpq c \<and> cw_allele1 c = b)
                                  (take i cb)))"
    by force
  have ci: "cb' ! i = cb ! i"
    using u by simp
  have tk: "take (Suc i) cb = take i cb @ [cb ! i]"
    using i by (simp add: take_Suc_conv_app_nth)
  obtain cb2 bc2 where s: "segBase_step iupac iupac_rev ref min_snpq (cb', bc') i = (cb2, bc2)"
    by (cases "segBase_step iupac iupac_rev ref min_snpq (cb', bc') i") auto
  have f2: "foldl (segBase_step iupac iupac_rev ref min_snpq) (cb, bc) [0..<Suc i] = (cb2, bc2)"
    using f s by simp
  have a4: "cw_allele1 (cb ! i) < 4"
    by (rule cw_allele1_less)
  have "length cb2 = length cb \<and> length bc2 = 4
           \<and> (\<forall>j. Suc i \<le> j \<longrightarrow> cb2 ! j = cb ! j)
           \<and> (\<forall>b < 4. bc2 ! b = bc ! b
                 + int (length (filter (\<lambda>c. segBase_tallied iupac ref min_snpq c \<and> cw_allele1 c = b)
                                  (take (Suc i) cb))))"
    using s l u c a4 unfolding tk segBase_step_def ci
    by (auto simp: Let_def nth_list_update split: if_splits)
  then show ?case
    using f2 by blast
qed

lemma upt_NBASES: "[0..<NBASES] = [0, 1, 2, 3]"
  by (simp add: NBASES_def upt_rec)

lemma segBase_check:
  "foldl (segBase_check_step bc) (0, 0) [0..<NBASES]
     = (length (filter (\<lambda>b. bc ! b > 0) [0, 1, 2, 3]),
        (if bc ! 3 > 0 then 3 else if bc ! 2 > 0 then 2 else if bc ! 1 > 0 then 1 else 0))"
  unfolding upt_NBASES by (simp add: segBase_check_step_def)

lemma filter_split4:
  assumes "\<And>c. f c < (4::nat)"
  shows "length (filter P xs)
           = length (filter (\<lambda>c. P c \<and> f c = 0) xs) + length (filter (\<lambda>c. P c \<and> f c = 1) xs)
             + length (filter (\<lambda>c. P c \<and> f c = 2) xs) + length (filter (\<lambda>c. P c \<and> f c = 3) xs)"
proof (induction xs)
  case Nil
  then show ?case by simp
next
  case (Cons x xs)
  have "f x = 0 \<or> f x = 1 \<or> f x = 2 \<or> f x = 3"
    using assms [of x] by arith
  then show ?case
    using Cons by auto
qed

lemma segBase_bases_iff:
  "b \<in> segBase_bases iupac ref min_snpq cb
     \<longleftrightarrow> 0 < length (filter (\<lambda>c. segBase_tallied iupac ref min_snpq c \<and> cw_allele1 c = b) cb)"
  by (auto simp: segBase_bases_def length_greater_0_conv filter_empty_conv simp del: length_0_conv)

lemma segBase_bases_sub: "segBase_bases iupac ref min_snpq cb \<subseteq> {0, 1, 2, 3}"
proof
  fix b assume "b \<in> segBase_bases iupac ref min_snpq cb"
  then obtain c where "b = cw_allele1 c"
    by (auto simp: segBase_bases_def)
  then have "b < 4"
    using cw_allele1_less [of c] by simp
  then show "b \<in> {0, 1, 2, 3}"
    by auto
qed

lemma list4: "length xs = 4 \<Longrightarrow> xs = [xs ! 0, xs ! 1, xs ! 2, xs ! 3]"
  by (auto simp: length_Suc_conv eval_nat_numeral)

lemma card4:
  fixes B :: "nat set"
  assumes "\<And>b. b \<in> B \<longleftrightarrow> b \<in> {0, 1, 2, 3} \<and> p b"
  shows "card B = length (filter p [0, 1, 2, 3])"
proof -
  have "set (filter p [0, 1, 2, 3]) = {b \<in> set [0, 1, 2, 3]. p b}"
    by (rule set_filter)
  also have "set [0, 1, 2, 3 :: nat] = {0, 1, 2, 3}"
    by simp
  finally have "set (filter p [0, 1, 2, 3]) = {b \<in> {0, 1, 2, 3}. p b}" .
  moreover have "B = {b \<in> {0, 1, 2, 3}. p b}"
    using assms by blast
  ultimately have "B = set (filter p [0, 1, 2, 3])"
    by simp
  moreover have "distinct (filter p [0, 1, 2, 3 :: nat])"
    by (rule distinct_filter) simp
  ultimately show ?thesis
    by (simp only: distinct_card)
qed

lemma pick4:
  fixes xs :: "int list"
  assumes "length xs = 4" "0 \<le> xs ! 0" "0 \<le> xs ! 1" "0 \<le> xs ! 2" "0 \<le> xs ! 3"
    and "\<not> 1 < length (filter (\<lambda>i. 0 < xs ! i) [0, 1, 2, 3 :: nat])"
  shows "xs ! (if 0 < xs ! 3 then 3 else if 0 < xs ! 2 then 2 else if 0 < xs ! 1 then 1 else 0)
           = xs ! 0 + xs ! 1 + xs ! 2 + xs ! 3"
proof -
  obtain a b c d where xs: "xs = [a, b, c, d]"
    using list4 [OF assms(1)] by blast
  have "a = 0 \<or> 0 < a" "b = 0 \<or> 0 < b" "c = 0 \<or> 0 < c" "d = 0 \<or> 0 < d"
    using assms(2-5) unfolding xs by auto
  then show ?thesis
    using assms(6) unfolding xs by (elim disjE) simp_all
qed

text \<open>
  The return value of \<open>segBase\<close>, for every array: the rejection signal \<open>-1\<close> when the
  tallied calls show more than one base, the number of tallied calls otherwise.
\<close>

lemma segBase_result:
  "fst (segBase iupac iupac_rev (length cb) cb ref min_snpq)
     = (if 1 < card (segBase_bases iupac ref min_snpq cb) then - 1
        else int (length (filter (segBase_tallied iupac ref min_snpq) cb)))"
proof -
  let ?P = "segBase_tallied iupac ref min_snpq"
  let ?B = "segBase_bases iupac ref min_snpq cb"
  define n where "n = (\<lambda>b. length (filter (\<lambda>c. ?P c \<and> cw_allele1 c = b) cb))"
  have l0: "length (replicate NBASES (0::int)) = 4"
    by (simp add: NBASES_def)
  obtain cb' bc' where
    f: "foldl (segBase_step iupac iupac_rev ref min_snpq) (cb, replicate NBASES 0) [0..<length cb]
          = (cb', bc')"
    and l: "length bc' = 4"
    and c: "\<forall>b < 4. bc' ! b = replicate NBASES 0 ! b
              + int (length (filter (\<lambda>c. ?P c \<and> cw_allele1 c = b) (take (length cb) cb)))"
    using segBase_loop [OF le_refl l0] by blast
  have bc: "bc' ! 0 = int (n 0)" "bc' ! 1 = int (n 1)" "bc' ! 2 = int (n 2)" "bc' ! 3 = int (n 3)"
    using c by (simp_all add: NBASES_def n_def)
  have nn: "0 \<le> bc' ! 0" "0 \<le> bc' ! 1" "0 \<le> bc' ! 2" "0 \<le> bc' ! 3"
    unfolding bc by simp_all
  have "length (filter ?P cb) = n 0 + n 1 + n 2 + n 3"
    unfolding n_def by (rule filter_split4) (rule cw_allele1_less)
  then have tot: "int (length (filter ?P cb)) = bc' ! 0 + bc' ! 1 + bc' ! 2 + bc' ! 3"
    unfolding bc by simp
  have res: "fst (segBase iupac iupac_rev (length cb) cb ref min_snpq)
         = (if 1 < length (filter (\<lambda>b. 0 < bc' ! b) [0, 1, 2, 3]) then - 1
            else bc' ! (if 0 < bc' ! 3 then 3 else if 0 < bc' ! 2 then 2
                        else if 0 < bc' ! 1 then 1 else 0))"
    by (simp add: segBase_def f segBase_check)
  have mem: "b \<in> ?B \<longleftrightarrow> b \<in> {0, 1, 2, 3} \<and> 0 < bc' ! b" for b
  proof -
    have "b \<in> ?B \<longleftrightarrow> b \<in> {0, 1, 2, 3} \<and> 0 < n b"
      using segBase_bases_sub [of iupac ref min_snpq cb]
        segBase_bases_iff [of b iupac ref min_snpq cb]
      unfolding n_def by blast
    moreover have "b \<in> {0, 1, 2, 3} \<Longrightarrow> bc' ! b = int (n b)"
      using bc by auto
    ultimately show ?thesis
      by auto
  qed
  have cardB: "card ?B = length (filter (\<lambda>b. 0 < bc' ! b) [0, 1, 2, 3])"
    by (rule card4) (rule mem)
  show ?thesis
  proof (cases "1 < card ?B")
    case True
    then show ?thesis
      unfolding res cardB by (simp only: if_True)
  next
    case False
    then have one: "\<not> 1 < length (filter (\<lambda>b. 0 < bc' ! b) [0, 1, 2, 3 :: nat])"
      unfolding cardB .
    have "bc' ! (if 0 < bc' ! 3 then 3 else if 0 < bc' ! 2 then 2 else if 0 < bc' ! 1 then 1 else 0)
            = bc' ! 0 + bc' ! 1 + bc' ! 2 + bc' ! 3"
      by (rule pick4 [OF l nn one])
    then show ?thesis
      using one unfolding res cardB tot by (simp only: if_False)
  qed
qed

text \<open>
  Claim C7. If the homozygous high-confidence non-reference calls that \<open>segBase\<close>
  tallies span more than one distinct base, \<open>segBase\<close> returns \<open>-1\<close>, the multi-allelic
  rejection signal, and so no positive derived-allele count.
\<close>

theorem segBase_multiallelic:
  assumes "1 < card (segBase_bases iupac ref min_snpq cb)"
  shows "fst (segBase iupac iupac_rev (length cb) cb ref min_snpq) = - 1
       \<and> \<not> 0 < fst (segBase iupac iupac_rev (length cb) cb ref min_snpq)"
  using assms by (simp add: segBase_result)

text \<open>
  Two samples, homozygous C/C and G/G with SNP qualities 40 and 50, at a site whose
  reference base is A, with \<open>min_snpq = 25\<close>: two distinct non-reference bases.
\<close>

theorem segBase_multiallelic_witness:
  "1 < card (segBase_bases iupac_acgt (CHR ''A'') 25 [call_of 5 40, call_of 10 50])
   \<and> fst (segBase iupac_acgt iupac_rev_acgt 2 [call_of 5 40, call_of 10 50] (CHR ''A'') 25) = - 1"
proof -
  have b: "segBase_bases iupac_acgt (CHR ''A'') 25 [call_of 5 40, call_of 10 50] = {1, 2}"
    by (simp add: segBase_bases_def segBase_tallied_def call_of_def cw_allele1_def cw_allele2_def
          cw_genotype_def cw_snp_quality_def iupac_acgt_def)
  have h: "1 < card (segBase_bases iupac_acgt (CHR ''A'') 25 [call_of 5 40, call_of 10 50])"
    unfolding b by simp
  show ?thesis
    using h segBase_multiallelic [OF h, of iupac_rev_acgt] by (simp add: numeral_2_eq_2)
qed

section \<open>Properties of \<open>errmod_cal\<close>\<close>

lemma memset_zero_all: "length q = cnt \<Longrightarrow> memset_zero q cnt = replicate cnt 0"
  by (simp add: memset_zero_def)

text \<open>
  Claim C9. For every error model, observation count \<open>n\<close>, number of base symbols
  \<open>m\<close>, base array and likelihood array, the guard \<open>m > m\<close> of \<open>errmod_cal\<close> is false,
  the function returns 0 and never \<open>-1\<close>, and with no observation (\<open>n = 0\<close>) the
  first \<open>m * m\<close> entries of the likelihood array are zeroed and nothing else is
  written: an array of exactly \<open>m * m\<close> entries comes back all zero.
\<close>

theorem errmod_cal_returns_0:
  "\<not> m > m
   \<and> fst (errmod_cal shuffle em n m bases q) = 0
   \<and> fst (errmod_cal shuffle em n m bases q) \<noteq> - 1
   \<and> snd (errmod_cal shuffle em 0 m bases q) = memset_zero q (m * m)
   \<and> snd (errmod_cal shuffle em 0 m bases (replicate (m * m) x)) = replicate (m * m) 0"
  by (simp add: errmod_cal_def Let_def memset_zero_all)

section \<open>The invariant of the per-column driver \<open>make_ld\<close>\<close>

text \<open>A column is inside the window when \<^verbatim>\<open>(t->beg <= (int)pos) && (t->end > (int)pos)\<close>.\<close>

lemma make_ld_outside:
  "\<not> (beg t \<le> sint (fst col) \<and> sint (fst col) < endp t) \<Longrightarrow> make_ld iupac iupac_rev t col = t"
  by (cases col) (auto simp: make_ld_def)

text \<open>
  One call changes the window in one of three ways: it leaves the two counters and
  the site types alone; it counts one aligned site; or it counts one aligned site and
  appends one site type at index \<open>segsites\<close>. The counters move only for a column
  inside the window.
\<close>

lemma make_ld_step:
  fixes t :: "'a ldData_scheme" and col iupac iupac_rev
  defines "t' \<equiv> make_ld iupac iupac_rev t col"
  shows "beg t' = beg t \<and> endp t' = endp t \<and> length (types t') = length (types t)
       \<and> ((num_sites t' = num_sites t \<and> segsites t' = segsites t \<and> types t' = types t)
          \<or> (beg t \<le> sint (fst col) \<and> sint (fst col) < endp t
              \<and> num_sites t' = num_sites t + 1
              \<and> ((segsites t' = segsites t \<and> types t' = types t)
                 \<or> (\<exists>v. segsites t' = segsites t + 1 \<and> types t' = (types t)[segsites t := v]))))"
  unfolding t'_def make_ld_def
  by (cases col) (auto simp: Let_def split: prod.splits)

lemma ld_columns_snoc:
  "ld_columns iupac iupac_rev t (cols @ [col])
     = make_ld iupac iupac_rev (ld_columns iupac iupac_rev t cols) col"
  by (simp add: ld_columns_def)

lemma ld_columns_append:
  "ld_columns iupac iupac_rev t (cs1 @ cs2)
     = ld_columns iupac iupac_rev (ld_columns iupac iupac_rev t cs1) cs2"
  by (simp add: ld_columns_def)

text \<open>
  Over any run of columns the window bounds and the length of \<open>types\<close> stay as they
  are, \<open>segsites\<close> grows no faster than \<open>num_sites\<close>, and \<open>num_sites\<close> grows by at most
  the number of columns inside the window.
\<close>

lemma ld_columns_counts:
  fixes t :: "'a ldData_scheme" and cols iupac iupac_rev
  defines "t' \<equiv> ld_columns iupac iupac_rev t cols"
  shows "beg t' = beg t \<and> endp t' = endp t \<and> length (types t') = length (types t)
       \<and> num_sites t' \<le> num_sites t + length (filter (in_window (beg t) (endp t)) (map fst cols))
       \<and> segsites t' - segsites t \<le> num_sites t' - num_sites t
       \<and> segsites t \<le> segsites t' \<and> num_sites t \<le> num_sites t'"
  unfolding t'_def
proof (induction cols rule: rev_induct)
  case Nil
  then show ?case
    by (simp add: ld_columns_def)
next
  case (snoc col cols)
  let ?s = "ld_columns iupac iupac_rev t cols"
  note st = make_ld_step [of iupac iupac_rev ?s col]
  show ?case
    unfolding ld_columns_snoc using snoc st
    by (auto simp: in_window_def)
qed

lemma sint_inj32: "sint (x :: 32 word) = sint y \<Longrightarrow> x = y"
  by (rule signed_word_eqI)

lemma distinct_in_window:
  assumes "distinct ps"
  shows "int (length (filter (in_window b e) ps)) \<le> max 0 (e - b)"
proof -
  let ?qs = "filter (in_window b e) ps"
  have d: "distinct (map sint ?qs)"
    using assms by (auto simp: distinct_map inj_on_def dest: sint_inj32)
  have c: "card (set (map sint ?qs)) = length ?qs"
    using distinct_card [OF d] by (simp only: length_map)
  have sub: "set (map sint ?qs) \<subseteq> {b..<e}"
    by (auto simp: in_window_def)
  have "card (set (map sint ?qs)) \<le> card {b..<e}"
    by (rule card_mono [OF _ sub]) simp
  then have "length ?qs \<le> card {b..<e}"
    unfolding c .
  then show ?thesis
    by simp
qed

lemma window_start_fields:
  fixes t :: "'a ldData_scheme" and masks nsmpl
  defines "t0 \<equiv> window_start masks nsmpl t"
  shows "beg t0 = beg t" "endp t0 = endp t" "num_sites t0 = 0" "segsites t0 = 0"
    "length (types t0) = nat (endp t - beg t)"
  unfolding t0_def window_start_def assign_pops_def init_ld_def
  by (simp_all add: Let_def)

lemma ld_columns_frame:
  fixes t :: "'a ldData_scheme"
  shows "i < segsites t \<Longrightarrow> types (ld_columns iupac iupac_rev t cols) ! i = types t ! i"
proof (induction cols rule: rev_induct)
  case Nil
  then show ?case
    by (simp add: ld_columns_def)
next
  case (snoc col cols)
  let ?s = "ld_columns iupac iupac_rev t cols"
  have "segsites t \<le> segsites ?s"
    using ld_columns_counts [of iupac iupac_rev t cols] by simp
  then have "i < segsites ?s"
    using snoc.prems by simp
  then have "types (make_ld iupac iupac_rev ?s col) ! i = types ?s ! i"
    using make_ld_step [of iupac iupac_rev ?s col] by auto
  then show ?case
    unfolding ld_columns_snoc using snoc by simp
qed

text \<open>
  Claim C10. Take a window with \<open>beg \<le> end\<close> (\<open>main_ld\<close> stops on any other), started
  as \<open>main_ld\<close> and \<open>init_ld\<close> start it, and any run of columns whose positions are
  pairwise distinct. Look at any one call of \<open>make_ld\<close> in the run: \<open>s\<close> is the state
  before it, \<open>s'\<close> the state after it, \<open>fin\<close> the state at the end of the run. Then
  after the call \<open>segsites \<le> num_sites \<le> end - beg\<close>; the call either leaves \<open>types\<close>
  and \<open>segsites\<close> as they are or writes one entry of \<open>types\<close>, at index \<open>segsites\<close>,
  inside the array, and increments \<open>segsites\<close>; and no entry below \<open>segsites\<close> is
  changed by this call or by any later one.
\<close>

theorem make_ld_invariant:
  fixes t :: "'a ldData_scheme" and iupac iupac_rev masks nsmpl pre col post
  defines "s \<equiv> ld_columns iupac iupac_rev (window_start masks nsmpl t) pre"
  defines "s' \<equiv> make_ld iupac iupac_rev s col"
  defines "fin \<equiv> ld_columns iupac iupac_rev s' post"
  assumes "beg t \<le> endp t" "distinct (map fst (pre @ col # post))"
  shows "segsites s' \<le> num_sites s' \<and> int (num_sites s') \<le> endp t - beg t
       \<and> ((types s' = types s \<and> segsites s' = segsites s)
          \<or> (segsites s < length (types s) \<and> segsites s' = segsites s + 1
              \<and> (\<exists>v. types s' = (types s)[segsites s := v])))
       \<and> (\<forall>i < segsites s. types s' ! i = types s ! i)
       \<and> (\<forall>i < segsites s'. types fin ! i = types s' ! i)"
proof -
  let ?t0 = "window_start masks nsmpl t"
  note w = window_start_fields [of masks nsmpl t]
  have s': "s' = ld_columns iupac iupac_rev ?t0 (pre @ [col])"
    by (simp add: s'_def s_def ld_columns_snoc)
  note c = ld_columns_counts [of iupac iupac_rev ?t0 "pre @ [col]", folded s']
  have d: "distinct (map fst (pre @ [col]))"
    using assms(5) by auto
  have n: "int (num_sites s') \<le> endp t - beg t"
  proof -
    have "int (num_sites s')
            \<le> int (length (filter (in_window (beg t) (endp t)) (map fst (pre @ [col]))))"
      using c w by simp
    also have "\<dots> \<le> max 0 (endp t - beg t)"
      by (rule distinct_in_window [OF d])
    finally show ?thesis
      using assms(4) by simp
  qed
  have sg: "segsites s' \<le> num_sites s'"
    using c w by simp
  have len: "length (types s) = nat (endp t - beg t)"
    using ld_columns_counts [of iupac iupac_rev ?t0 pre] w by (simp add: s_def)
  note st = make_ld_step [of iupac iupac_rev s col, folded s'_def]
  have step: "(types s' = types s \<and> segsites s' = segsites s)
          \<or> (segsites s < length (types s) \<and> segsites s' = segsites s + 1
              \<and> (\<exists>v. types s' = (types s)[segsites s := v]))"
    using st sg n len by auto
  have f1: "\<forall>i < segsites s. types s' ! i = types s ! i"
    using st by auto
  have f2: "\<forall>i < segsites s'. types fin ! i = types s' ! i"
    unfolding fin_def using ld_columns_frame by blast
  show ?thesis
    using sg n step f1 f2 by blast
qed

lemma ld_example_run:
  "ld_columns iupac_acgt iupac_rev_acgt (window_start [3] [2] ld_example) [(0, col_ref), (1, col_snp)]
     = ld_example\<lparr>num_sites := 2, segsites := 1, types := [1, 0, 0], pop_mask := [3],
         pop_nsmpl := [2], pop_cov := [1, 1, 0], num_snps := [0], zns := [Fin 0]\<rparr>"
  by code_simp

text \<open>
  The example window: after its first two columns two sites are aligned and one is
  segregating, its type written at index 0; the third column leaves that entry alone.
\<close>

theorem make_ld_invariant_witness:
  "beg ld_example \<le> endp ld_example
   \<and> distinct (map fst ([(0 :: 32 word, col_ref)] @ (1, col_snp) # [(2, col_ref)]))
   \<and> segsites (make_ld iupac_acgt iupac_rev_acgt
         (ld_columns iupac_acgt iupac_rev_acgt (window_start [3] [2] ld_example) [(0, col_ref)])
         (1, col_snp))
       \<le> num_sites (make_ld iupac_acgt iupac_rev_acgt
         (ld_columns iupac_acgt iupac_rev_acgt (window_start [3] [2] ld_example) [(0, col_ref)])
         (1, col_snp))
   \<and> int (num_sites (make_ld iupac_acgt iupac_rev_acgt
         (ld_columns iupac_acgt iupac_rev_acgt (window_start [3] [2] ld_example) [(0, col_ref)])
         (1, col_snp)))
       \<le> endp ld_example - beg ld_example
   \<and> segsites (ld_columns iupac_acgt iupac_rev_acgt (window_start [3] [2] ld_example)
         [(0, col_ref), (1, col_snp)]) = 1
   \<and> num_sites (ld_columns iupac_acgt iupac_rev_acgt (window_start [3] [2] ld_example)
         [(0, col_ref), (1, col_snp)]) = 2
   \<and> types (ld_columns iupac_acgt iupac_rev_acgt (window_start [3] [2] ld_example)
         [(0, col_ref), (1, col_snp)]) = [1, 0, 0]"
proof -
  have h1: "beg ld_example \<le> endp ld_example"
    by (simp add: ld_example_def)
  have h2: "distinct (map fst ([(0 :: 32 word, col_ref)] @ (1, col_snp) # [(2, col_ref)]))"
    by simp
  note r = make_ld_invariant [where t = ld_example and pre = "[(0, col_ref)]"
      and col = "(1, col_snp)" and post = "[(2, col_ref)]" and iupac = iupac_acgt
      and iupac_rev = iupac_rev_acgt and masks = "[3]" and nsmpl = "[2]", OF h1 h2]
  show ?thesis
    using h1 h2 r unfolding ld_example_run by simp
qed

section \<open>\<open>cleanHeterozygotes\<close> on a call without the reference allele\<close>

text \<open>
  Claim C4 fails on the code. Take one sample whose call is the heterozygote C/G
  (genotype code 6: \<open>allele1 = 1\<close>, \<open>allele2 = 2\<close>) at a site whose reference base is A
  (code 0), with \<open>min_snpq = 25\<close>. With SNP quality 40 neither inner test of the first
  branch fires and the call is left as it is; with SNP quality 10 both inner tests of
  the second branch fire and the two alleles are exchanged (genotype code 9). In both
  cases the call is still heterozygous after \<open>cleanHeterozygotes\<close>.
\<close>

theorem cleanHeterozygotes_no_ref_allele:
  "cleanHeterozygotes iupac_rev_acgt 1 [call_of 6 40] (CHR ''A'') 25 = [call_of 6 40]
   \<and> cw_allele1 (call_of 6 40) = 1 \<and> cw_allele2 (call_of 6 40) = 2
   \<and> cleanHeterozygotes iupac_rev_acgt 1 [call_of 6 10] (CHR ''A'') 25 = [call_of 9 10]
   \<and> cw_allele1 (call_of 9 10) = 2 \<and> cw_allele2 (call_of 9 10) = 1"
  by code_simp

section \<open>\<open>calc_zns\<close> and the site that closes the window\<close>

text \<open>
  Claim C1 fails on the code. A population of 10 samples (mask \<open>0x3ff\<close>), singletons
  included (\<open>min_freq = 1\<close>), and three segregating sites: the first two are those of
  the specification's scenario (\<open>x0 = 3\<close>, \<open>x1 = 4\<close>, \<open>x11 = 2\<close>), the third is derived
  in all 10 samples and so does not qualify. The specification's Zns is \<open>64/504\<close>
  (two qualifying sites, \<open>C(2,2) = 1\<close>). The source never tests the last site of the
  buffer and counts it as a SNP all the same: it reports 3 SNPs and divides by
  \<open>C(3,2) = 3\<close>. Without the third site the source does return \<open>64/504\<close>.
\<close>

theorem calc_zns_counts_last_site:
  "qualifying_sites [0x007, 0x01e, 0x3ff] 0x3ff 10 1 = [0x007, 0x01e]
   \<and> zns_spec [0x007, 0x01e, 0x3ff] 0x3ff 10 1 = Some (64 / 504)
   \<and> calc_zns_pop [0x007, 0x01e, 0x3ff] 3 0x3ff 10 1 (Fin 0) = (3, Fin (64 / 1512))
   \<and> calc_zns_pop [0x007, 0x01e] 2 0x3ff 10 1 (Fin 0) = (2, Fin (64 / 504))"
  by code_simp

text \<open>
  Claim C6 fails on the code, by the same defect: with the site that does not qualify
  moved from the end of the buffer to its start, the last site qualifies, the count
  is right, and the value is three times the value for the first order.
\<close>

theorem calc_zns_order_dependent:
  "mset [0x3ff, 0x007, 0x01e] = mset [0x007, 0x01e, 0x3ff :: 64 word]
   \<and> calc_zns_pop [0x007, 0x01e, 0x3ff] 3 0x3ff 10 1 (Fin 0) = (3, Fin (64 / 1512))
   \<and> calc_zns_pop [0x3ff, 0x007, 0x01e] 3 0x3ff 10 1 (Fin 0) = (2, Fin (64 / 504))"
  by code_simp

section \<open>\<open>calc_omegamax\<close>: the maximum over the split points\<close>

lemma omega_split_pair:
  "omega_split r2 nsnp (su, om) i
     = (omega_sums r2 nsnp su i, dmax om (omega_val nsnp (omega_sums r2 nsnp su i) i))"
  by (simp add: omega_split_def dmax_def Let_def)

lemma omega_fold_trace:
  "snd (foldl (omega_split r2 nsnp) (su, om) is)
     = foldl dmax om (map (\<lambda>e. snd (snd e)) (omega_trace r2 nsnp su is))"
proof (induction "is" arbitrary: su om)
  case Nil
  then show ?case by simp
next
  case (Cons i "is")
  show ?case
    by (simp add: omega_split_pair Cons Let_def)
qed

lemma dgt_trans_nan: "dgt b a \<Longrightarrow> \<not> dgt c a \<Longrightarrow> \<not> dgt c b"
  by (cases a; cases b; cases c) auto

lemma dgt_irrefl: "\<not> dgt a a"
  by (cases a) auto

lemma dmax_fold:
  assumes "\<not> isnan om"
  shows "\<not> isnan (foldl dmax om ws)
       \<and> (foldl dmax om ws = om \<or> foldl dmax om ws \<in> set ws)
       \<and> \<not> dgt om (foldl dmax om ws)
       \<and> list_all (\<lambda>w. \<not> dgt w (foldl dmax om ws)) ws"
  using assms
proof (induction ws arbitrary: om)
  case Nil
  then show ?case
    by (simp add: dgt_irrefl)
next
  case (Cons w ws)
  have n: "\<not> isnan (dmax om w)"
    using Cons.prems by (cases om; cases w) (auto simp: dmax_def)
  note ih = Cons.IH [OF n]
  let ?r = "foldl dmax (dmax om w) ws"
  have r: "\<not> dgt (dmax om w) ?r"
    using ih by blast
  have a: "\<not> dgt om ?r"
  proof (cases "dgt w om")
    case True
    then have "dmax om w = w" by (simp add: dmax_def)
    then show ?thesis
      using r True Cons.prems by (cases om; cases w; cases ?r) auto
  next
    case False
    then show ?thesis
      using r by (simp add: dmax_def)
  qed
  have b: "\<not> dgt w ?r"
  proof (cases "dgt w om")
    case True
    then show ?thesis
      using r by (simp add: dmax_def)
  next
    case False
    then have "dmax om w = om" by (simp add: dmax_def)
    then show ?thesis
      using r False Cons.prems by (cases om; cases w; cases ?r) auto
  qed
  have "dmax om w = om \<or> dmax om w = w"
    by (simp add: dmax_def)
  then have c: "?r = om \<or> ?r \<in> set (w # ws)"
    using ih by auto
  show ?case
    using ih a b c by simp
qed

lemma BINOM_pos: "2 \<le> x \<Longrightarrow> 1 \<le> BINOM x"
proof -
  assume x: "2 \<le> x"
  have "2 * 1 \<le> x * (x - 1)"
    by (rule mult_mono) (use x in simp_all)
  then have "2 div 2 \<le> x * (x - 1) div 2"
    by (intro zdiv_mono1) simp_all
  then show ?thesis
    by (simp add: BINOM_def)
qed

lemma BINOM_nonneg: "1 \<le> x \<Longrightarrow> 0 \<le> BINOM x"
  unfolding BINOM_def by (simp add: pos_imp_zdiv_nonneg_iff)

lemma omega_val_zero_between:
  assumes "1 \<le> i" "i + 1 < nsnp"
  shows "omega_val nsnp (sl, Fin 0, sr) i = dinf (dsgn (dadd sl sr))"
proof -
  define left where "left = int i + 1"
  define right where "right = int nsnp - left"
  have lr: "0 < real_of_int (left * right)"
    using assms unfolding left_def right_def by simp
  have "1 \<le> BINOM left" "0 \<le> BINOM right"
    using assms BINOM_pos [of left] BINOM_nonneg [of right] unfolding left_def right_def by simp_all
  then have c: "0 < real_of_int (BINOM left + BINOM right)"
    by simp
  have v: "omega_val nsnp (sl, Fin 0, sr) i
             = dmul (ddiv (dadd sl sr) (Fin (real_of_int (BINOM left + BINOM right))))
                    (ddiv (Fin (real_of_int (left * right))) (Fin 0))"
    by (simp add: omega_val_def Let_def left_def right_def)
  have p: "ddiv (Fin (real_of_int (left * right))) (Fin 0) = PInf"
    using lr by (simp add: dinf_def)
  show ?thesis
    unfolding v p using c
    by (cases "dadd sl sr") (simp_all add: dinf_def divide_less_0_iff zero_less_divide_iff)
qed

lemma omega_trace_entries:
  "(i, su, w) \<in> set (omega_trace r2 nsnp su0 is) \<Longrightarrow> i \<in> set is \<and> w = omega_val nsnp su i"
proof (induction "is" arbitrary: su0)
  case Nil
  then show ?case by simp
next
  case (Cons a "is")
  let ?su = "omega_sums r2 nsnp su0 a"
  from Cons.prems
  have "(i, su, w) = (a, ?su, omega_val nsnp ?su a) \<or> (i, su, w) \<in> set (omega_trace r2 nsnp ?su is)"
    by (simp add: Let_def)
  then show ?case
    using Cons.IH [of ?su] by auto
qed

lemma omega_trace_indices: "map fst (omega_trace r2 nsnp su0 is) = is"
  by (induction "is" arbitrary: su0) (simp_all add: Let_def)

lemma omega_trace_ok:
  "list_all split_ok (omega_trace r2 nsnp su0 [1..<nsnp - 1])"
proof -
  have "split_ok e" if "e \<in> set (omega_trace r2 nsnp su0 [1..<nsnp - 1])" for e
  proof -
    obtain i sl sb sr w where e: "e = (i, (sl, sb, sr), w)"
      by (cases e) auto
    have "i \<in> set [1..<nsnp - 1]" "w = omega_val nsnp (sl, sb, sr) i"
      using omega_trace_entries that unfolding e by blast+
    then show ?thesis
      unfolding e split_ok_def using omega_val_zero_between [of i nsnp sl sr] by auto
  qed
  then show ?thesis
    by (simp add: list_all_iff)
qed

text \<open>
  The value \<open>calc_omegamax\<close> stores is the maximum, from 0 on, of the values \<open>omega\<close>
  that its partition loop computes, one for each \<open>1 \<le> i < num_snps - 1\<close>: it is 0 or
  one of them, it is not NaN, and none of them is greater. No split point is
  skipped: where \<open>sumbetween\<close> is 0, \<open>omega\<close> is plus infinity when
  \<open>sumleft + sumright\<close> is positive and NaN (never greater than anything, so never
  stored) when it is 0.
\<close>

lemma calc_omegamax_max:
  fixes ts segs pm n mf
  defines "res \<equiv> snd (calc_omegamax_pop ts segs pm n mf)"
    and "sp \<equiv> omega_splits ts segs pm n mf"
  shows "(res = Fin 0 \<or> res \<in> set (map (\<lambda>e. snd (snd e)) sp))
       \<and> \<not> isnan res \<and> \<not> dgt (Fin 0) res
       \<and> list_all (\<lambda>e. \<not> dgt (snd (snd e)) res) sp
       \<and> list_all split_ok sp
       \<and> map fst sp = [1..<nat (fst (calc_omegamax_pop ts segs pm n mf)) - 1]"
proof -
  obtain nsnp r2 where m: "omega_matrix ts segs pm n mf = (nsnp, r2)"
    by (cases "omega_matrix ts segs pm n mf") auto
  let ?tr = "omega_trace r2 (nat nsnp) (Fin 0, Fin 0, Fin 0) [1..<nat nsnp - 1]"
  have sp: "sp = ?tr"
    by (simp add: sp_def omega_splits_def m)
  have res: "res = foldl dmax (Fin 0) (map (\<lambda>e. snd (snd e)) ?tr)"
    by (simp add: res_def calc_omegamax_pop_def m omega_fold_trace)
  have ns: "fst (calc_omegamax_pop ts segs pm n mf) = nsnp"
    by (simp add: calc_omegamax_pop_def m)
  note d = dmax_fold [of "Fin 0" "map (\<lambda>e. snd (snd e)) ?tr", folded res]
  have "list_all (\<lambda>e. \<not> dgt (snd (snd e)) res) ?tr"
    using d by (simp add: list_all_iff)
  then show ?thesis
    unfolding sp ns using d omega_trace_ok [of r2 "nat nsnp"] omega_trace_indices
    by simp
qed

text \<open>
  Five sites of a population of four samples (\<open>min_freq = 1\<close>): three split points,
  none with \<open>sumbetween = 0\<close>; the largest \<open>omega\<close> is \<open>15/11\<close>. Three sites, the first
  two identical and the third uncorrelated with them: one split point, with
  \<open>sumbetween = 0\<close> and \<open>sumleft + sumright = 1\<close>; \<open>omega\<close> is plus infinity.
\<close>

lemma omega_example_splits:
  "omega_splits [1, 3, 7, 2, 6] 5 15 4 1
     = [(1, (Fin (1 / 3), Fin (11 / 9), Fin (7 / 9)), Fin (15 / 11)),
        (2, (Fin (10 / 9), Fin (22 / 9), Fin (10 / 9)), Fin (15 / 11)),
        (3, (Fin (22 / 9), Fin (31 / 9), Fin (10 / 9)), Fin (64 / 93))]"
  "omega_splits [12, 12, 10] 3 15 4 1 = [(1, (Fin 1, Fin 0, Fin 0), PInf)]"
  by code_simp+

lemma calc_omegamax_max_example:
  "snd (calc_omegamax_pop [1, 3, 7, 2, 6] 5 15 4 1) = Fin (15 / 11)
   \<and> map fst (omega_splits [1, 3, 7, 2, 6] 5 15 4 1) = [1, 2, 3]
   \<and> list_all split_ok (omega_splits [1, 3, 7, 2, 6] 5 15 4 1)
   \<and> fst (snd (hd (omega_splits [12, 12, 10] 3 15 4 1))) = (Fin 1, Fin 0, Fin 0)
   \<and> split_ok (hd (omega_splits [12, 12, 10] 3 15 4 1))
   \<and> snd (calc_omegamax_pop [12, 12, 10] 3 15 4 1) = PInf"
proof -
  note r = calc_omegamax_max [of "[1, 3, 7, 2, 6]" 5 15 4 1]
  note z = calc_omegamax_max [of "[12, 12, 10]" 3 15 4 1]
  have a: "snd (calc_omegamax_pop [1, 3, 7, 2, 6] 5 15 4 1) = Fin (15 / 11)"
    using r unfolding omega_example_splits by auto
  have b: "map fst (omega_splits [1, 3, 7, 2, 6] 5 15 4 1) = [1, 2, 3]"
    unfolding omega_example_splits by simp
  have c: "snd (calc_omegamax_pop [12, 12, 10] 3 15 4 1) = PInf"
    using z unfolding omega_example_splits by auto
  have d: "split_ok (hd (omega_splits [12, 12, 10] 3 15 4 1))"
    using z unfolding omega_example_splits by simp
  have e: "fst (snd (hd (omega_splits [12, 12, 10] 3 15 4 1))) = (Fin 1, Fin 0, Fin 0)"
    unfolding omega_example_splits by simp
  show ?thesis
    using a b c d e r by blast
qed

text \<open>
  Three qualifying sites of a population of four samples, the first two identical
  and the third uncorrelated with them. The only split point has \<open>sumbetween = 0\<close>;
  the specification skips it and has no candidate, the source divides by zero and
  stores plus infinity.
\<close>

lemma calc_omegamax_infinite:
  "qualifying_sites [3, 3, 5] 15 4 1 = [3, 3, 5]
   \<and> omega_spec_candidates [3, 3, 5] 15 4 1 = []
   \<and> omega_splits [3, 3, 5] 3 15 4 1 = [(1, (Fin 1, Fin 0, Fin 0), PInf)]
   \<and> calc_omegamax_pop [3, 3, 5] 3 15 4 1 = (3, PInf)"
  by code_simp

text \<open>
  Claim C2 fails on the code. A population of four samples (mask \<open>0xf\<close>,
  \<open>min_freq = 1\<close>) and four segregating sites, all qualifying: the first three are
  the same singleton, the fourth is a singleton of another sample, so \<open>r2\<close> is 1
  within the first three sites and \<open>1/9\<close> between each of them and the fourth. With
  the sums of each split point taken over that split alone, as the claim has them,
  \<open>omega(1) = (1 + 1/9)/2 * 4/(20/9) = 1\<close> and \<open>omega(2) = 3/3 * 3/(1/3) = 9\<close>, and the
  statistic is 9. The source sets \<open>sumleft\<close>, \<open>sumbetween\<close> and \<open>sumright\<close> to 0 once,
  before the loop over the split points, and at \<open>i = 2\<close> adds the sums of that split
  to those of \<open>i = 1\<close>: \<open>sumleft = 1 + 3\<close>, \<open>sumbetween = 20/9 + 1/3\<close>,
  \<open>sumright = 1/9 + 0\<close>, so \<open>omega = (37/9)/3 * 3/(23/9) = 37/23\<close>, which is what it
  returns.
\<close>

theorem calc_omegamax_accumulates:
  "qualifying_sites [1, 1, 1, 2] 15 4 1 = [1, 1, 1, 2]
   \<and> omega_spec_candidates [1, 1, 1, 2] 15 4 1 = [1, 9]
   \<and> omega_splits [1, 1, 1, 2] 4 15 4 1
       = [(1, (Fin 1, Fin (20 / 9), Fin (1 / 9)), Fin 1),
          (2, (Fin 4, Fin (23 / 9), Fin (1 / 9)), Fin (37 / 23))]
   \<and> calc_omegamax_pop [1, 1, 1, 2] 4 15 4 1 = (4, Fin (37 / 23))"
  by code_simp

section \<open>The SNP counter and the \<open>NA\<close> of \<open>print_ld\<close>\<close>

subsection \<open>The counter of \<open>calc_zns\<close> and \<open>calc_omegamax\<close>\<close>

lemma zns_outer_count:
  "fst (foldl (zns_outer ts segs pm n mf) (c, z) js)
     = c + int (length (filter (site_qualifies ts pm n mf) js))"
proof (induction js arbitrary: c z)
  case Nil
  then show ?case by simp
next
  case (Cons j js)
  show ?case
    by (simp add: zns_outer_def [of ts segs pm n mf "(c, z)" j] Cons site_qualifies_def Let_def)
qed

lemma omega_outer_count:
  "fst (foldl (omega_outer ts segs pm n mf) (c, k, r2) js)
     = c + int (length (filter (site_qualifies ts pm n mf) js))"
proof (induction js arbitrary: c k r2)
  case Nil
  then show ?case by simp
next
  case (Cons j js)
  show ?case
    by (simp add: omega_outer_def [of ts segs pm n mf "(c, k, r2)" j] Cons site_qualifies_def
          Let_def)
qed

lemma filter_upt_pred: "length (filter P [0..<m - 1]) \<le> length (filter P [0..<m])"
proof (cases m)
  case 0
  then show ?thesis by simp
next
  case (Suc k)
  then show ?thesis by simp
qed

lemma calc_zns_pop_count:
  "fst (calc_zns_pop ts segs pm n mf z0)
     = 1 + int (length (filter (site_qualifies ts pm n mf) [0..<segs - 1]))"
proof -
  obtain c z where f: "foldl (zns_outer ts segs pm n mf) (0, z0) [0..<segs - 1] = (c, z)"
    by (cases "foldl (zns_outer ts segs pm n mf) (0, z0) [0..<segs - 1]") auto
  have "c = 0 + int (length (filter (site_qualifies ts pm n mf) [0..<segs - 1]))"
    using zns_outer_count [of ts segs pm n mf 0 z0 "[0..<segs - 1]"] f by simp
  then show ?thesis
    unfolding calc_zns_pop_def f by simp
qed

lemma calc_omegamax_pop_count:
  "fst (calc_omegamax_pop ts segs pm n mf)
     = 1 + int (length (filter (site_qualifies ts pm n mf) [0..<segs - 1]))"
proof -
  let ?r0 = "replicate segs (replicate segs (Fin 0))"
  obtain c k r2 where f: "foldl (omega_outer ts segs pm n mf) (0, 0, ?r0) [0..<segs - 1] = (c, k, r2)"
    by (cases "foldl (omega_outer ts segs pm n mf) (0, 0, ?r0) [0..<segs - 1]") auto
  have "c = 0 + int (length (filter (site_qualifies ts pm n mf) [0..<segs - 1]))"
    using omega_outer_count [of ts segs pm n mf 0 0 ?r0 "[0..<segs - 1]"] f by simp
  then show ?thesis
    unfolding calc_omegamax_pop_def omega_matrix_def f by simp
qed

lemma calc_zns_pop_le:
  "fst (calc_zns_pop ts segs pm n mf z0) \<le> 1 + int (zns_qualifying ts segs pm n mf)"
  unfolding calc_zns_pop_count zns_qualifying_def using filter_upt_pred by simp

lemma calc_omegamax_pop_le:
  "fst (calc_omegamax_pop ts segs pm n mf) \<le> 1 + int (zns_qualifying ts segs pm n mf)"
  unfolding calc_omegamax_pop_count zns_qualifying_def using filter_upt_pred by simp

text \<open>
  The loop over the populations writes entry \<open>i\<close> of \<open>num_snps\<close> in its \<open>i\<close>-th pass and
  nothing else that the counter depends on.
\<close>

lemma list_update_nth_if:
  "xs[k := c] ! i = (if i = k \<and> k < length xs then c else xs ! i)"
  by (cases "k < length xs") (auto simp: nth_list_update list_update_beyond)

lemma calc_zns_fold:
  fixes t :: "'a ldData_scheme"
  shows "ld_same_inputs t (foldl calc_zns_step t js)
       \<and> (\<forall>i. i \<in> set js \<longrightarrow> i < length (num_snps t) \<longrightarrow>
              num_snps (foldl calc_zns_step t js) ! i
                \<le> 1 + int (zns_qualifying (types t) (segsites t) (pop_mask t ! i) (pop_nsmpl t ! i)
                             (min_freq t)))
       \<and> (\<forall>i. i \<notin> set js \<longrightarrow> num_snps (foldl calc_zns_step t js) ! i = num_snps t ! i)"
proof (induction js rule: rev_induct)
  case Nil
  then show ?case
    by (simp add: ld_same_inputs_def)
next
  case (snoc k js)
  let ?s = "foldl calc_zns_step t js"
  obtain c z where p: "calc_zns_pop (types ?s) (segsites ?s) (pop_mask ?s ! k) (pop_nsmpl ?s ! k)
                         (min_freq ?s) (zns ?s ! k) = (c, z)"
    by (cases "calc_zns_pop (types ?s) (segsites ?s) (pop_mask ?s ! k) (pop_nsmpl ?s ! k)
                 (min_freq ?s) (zns ?s ! k)") auto
  have st: "foldl calc_zns_step t (js @ [k])
              = ?s\<lparr>num_snps := (num_snps ?s)[k := c], zns := (zns ?s)[k := z]\<rparr>"
    by (simp add: calc_zns_step_def p)
  have same: "ld_same_inputs t ?s"
    using snoc by blast
  have c: "c \<le> 1 + int (zns_qualifying (types t) (segsites t) (pop_mask t ! k) (pop_nsmpl t ! k)
                            (min_freq t))"
    using calc_zns_pop_le [of "types ?s" "segsites ?s" "pop_mask ?s ! k" "pop_nsmpl ?s ! k"
        "min_freq ?s" "zns ?s ! k"] same
    by (simp add: p ld_same_inputs_def)
  note nth = list_update_nth_if [of "num_snps ?s" k c]
  show ?case
    unfolding st using snoc same c
    by (auto simp: ld_same_inputs_def nth)
qed

lemma calc_omegamax_fold:
  fixes t :: "'a ldData_scheme"
  shows "ld_same_inputs t (foldl calc_omegamax_step t js)
       \<and> (\<forall>i. i \<in> set js \<longrightarrow> i < length (num_snps t) \<longrightarrow>
              num_snps (foldl calc_omegamax_step t js) ! i
                \<le> 1 + int (zns_qualifying (types t) (segsites t) (pop_mask t ! i) (pop_nsmpl t ! i)
                             (min_freq t)))
       \<and> (\<forall>i. i \<notin> set js \<longrightarrow> num_snps (foldl calc_omegamax_step t js) ! i = num_snps t ! i)"
proof (induction js rule: rev_induct)
  case Nil
  then show ?case
    by (simp add: ld_same_inputs_def)
next
  case (snoc k js)
  let ?s = "foldl calc_omegamax_step t js"
  obtain c om where p: "calc_omegamax_pop (types ?s) (segsites ?s) (pop_mask ?s ! k)
                          (pop_nsmpl ?s ! k) (min_freq ?s) = (c, om)"
    by (cases "calc_omegamax_pop (types ?s) (segsites ?s) (pop_mask ?s ! k) (pop_nsmpl ?s ! k)
                 (min_freq ?s)") auto
  have st: "foldl calc_omegamax_step t (js @ [k])
              = ?s\<lparr>num_snps := (num_snps ?s)[k := c], omegamax := (omegamax ?s)[k := om]\<rparr>"
    by (simp add: calc_omegamax_step_def p)
  have same: "ld_same_inputs t ?s"
    using snoc by blast
  have c: "c \<le> 1 + int (zns_qualifying (types t) (segsites t) (pop_mask t ! k) (pop_nsmpl t ! k)
                            (min_freq t))"
    using calc_omegamax_pop_le [of "types ?s" "segsites ?s" "pop_mask ?s ! k" "pop_nsmpl ?s ! k"
        "min_freq ?s"] same
    by (simp add: p ld_same_inputs_def)
  note nth = list_update_nth_if [of "num_snps ?s" k c]
  show ?case
    unfolding st using snoc same c
    by (auto simp: ld_same_inputs_def nth)
qed

subsection \<open>The counter of \<open>calc_wall\<close>\<close>

lemma wall_site_snps:
  "wall_snps (wall_site n masks ty w j)
     = (if 0 < fst (wall_types n ty (masks ! j)) \<and> fst (wall_types n ty (masks ! j)) < masks ! j
        then (wall_snps w)[j := wall_snps w ! j + 1] else wall_snps w)"
  by (cases "wall_types n ty (masks ! j)") (simp add: wall_site_def Let_def)

lemma wall_inner_snps:
  assumes "distinct js" "j < length (wall_snps w)"
  shows "length (wall_snps (foldl (wall_site n masks ty) w js)) = length (wall_snps w)
       \<and> wall_snps (foldl (wall_site n masks ty) w js) ! j
           = wall_snps w ! j
             + (if j \<in> set js \<and> 0 < fst (wall_types n ty (masks ! j))
                   \<and> fst (wall_types n ty (masks ! j)) < masks ! j then 1 else 0)"
  using assms(1)
proof (induction js rule: rev_induct)
  case Nil
  then show ?case by simp
next
  case (snoc k js)
  then have d: "distinct js" "k \<notin> set js"
    by simp_all
  note ih = snoc.IH [OF d(1)]
  show ?case
    using ih d(2) assms(2)
    by (auto simp: wall_site_snps list_update_nth_if)
qed

lemma wall_outer_snps:
  assumes "j < npops" "j < length (wall_snps w)"
  shows "length (wall_snps (foldl (\<lambda>w i. foldl (wall_site n masks (ts ! i)) w [0..<npops]) w is))
           = length (wall_snps w)
       \<and> wall_snps (foldl (\<lambda>w i. foldl (wall_site n masks (ts ! i)) w [0..<npops]) w is) ! j
           = wall_snps w ! j + int (length (filter (wall_site_qualifies n ts (masks ! j)) is))"
proof (induction "is" rule: rev_induct)
  case Nil
  then show ?case by simp
next
  case (snoc i "is")
  let ?w = "foldl (\<lambda>w i. foldl (wall_site n masks (ts ! i)) w [0..<npops]) w is"
  have l: "j < length (wall_snps ?w)"
    using snoc assms(2) by simp
  note inner = wall_inner_snps [OF distinct_upt l, of n masks "ts ! i" 0 npops]
  show ?case
    using snoc inner assms(1) by (simp add: wall_site_qualifies_def)
qed

lemma wall_scan_snps:
  assumes "j < npops" "j < length snps0"
  shows "wall_snps (wall_scan n npops masks ts segs snps0) ! j
           = snps0 ! j + int (wall_qualifying n ts segs (masks ! j))"
  unfolding wall_scan_def wall_qualifying_def
  using wall_outer_snps [OF assms(1), of _ n masks ts "[0..<segs]"] assms(2) by simp

lemma calc_wall_stat_fold:
  fixes t :: "'a ldData_scheme"
  shows "ld_same_inputs t (foldl (calc_wall_stat w) t js)
       \<and> num_snps (foldl (calc_wall_stat w) t js) = num_snps t"
  by (induction js rule: rev_induct) (simp_all add: ld_same_inputs_def calc_wall_stat_def)

subsection \<open>From the pileup to the printed line\<close>

lemma make_ld_keeps:
  fixes t :: "'a ldData_scheme"
  shows "num_snps (make_ld iupac iupac_rev t col) = num_snps t
       \<and> min_snps (make_ld iupac iupac_rev t col) = min_snps t
       \<and> output_opt (make_ld iupac iupac_rev t col) = output_opt t
       \<and> sm_npops (make_ld iupac iupac_rev t col) = sm_npops t
       \<and> sm_n (make_ld iupac iupac_rev t col) = sm_n t
       \<and> pop_mask (make_ld iupac iupac_rev t col) = pop_mask t
       \<and> pop_nsmpl (make_ld iupac iupac_rev t col) = pop_nsmpl t
       \<and> min_freq (make_ld iupac iupac_rev t col) = min_freq t"
  unfolding make_ld_def by (cases col) (auto simp: Let_def split: prod.splits)

lemma ld_columns_keeps:
  fixes t :: "'a ldData_scheme"
  shows "num_snps (ld_columns iupac iupac_rev t cols) = num_snps t
       \<and> min_snps (ld_columns iupac iupac_rev t cols) = min_snps t
       \<and> output_opt (ld_columns iupac iupac_rev t cols) = output_opt t
       \<and> sm_npops (ld_columns iupac iupac_rev t cols) = sm_npops t
       \<and> sm_n (ld_columns iupac iupac_rev t cols) = sm_n t
       \<and> pop_mask (ld_columns iupac iupac_rev t cols) = pop_mask t
       \<and> pop_nsmpl (ld_columns iupac iupac_rev t cols) = pop_nsmpl t
       \<and> min_freq (ld_columns iupac iupac_rev t cols) = min_freq t"
proof (induction cols rule: rev_induct)
  case Nil
  then show ?case
    by (simp add: ld_columns_def)
next
  case (snoc col cols)
  show ?case
    unfolding ld_columns_snoc
    using snoc make_ld_keeps [of iupac iupac_rev "ld_columns iupac iupac_rev t cols" col]
    by simp
qed

lemma window_start_keeps:
  fixes t :: "'a ldData_scheme"
  shows "num_snps (window_start masks nsmpl t) = replicate (sm_npops t) 0
       \<and> min_snps (window_start masks nsmpl t) = min_snps t
       \<and> output_opt (window_start masks nsmpl t) = output_opt t
       \<and> sm_npops (window_start masks nsmpl t) = sm_npops t
       \<and> sm_n (window_start masks nsmpl t) = sm_n t
       \<and> pop_mask (window_start masks nsmpl t) = masks
       \<and> pop_nsmpl (window_start masks nsmpl t) = nsmpl
       \<and> min_freq (window_start masks nsmpl t) = min_freq t"
  by (simp add: window_start_def assign_pops_def init_ld_def Let_def)

text \<open>
  The counter after the statistic has run, for a window whose counters start at 0:
  at most one more than the number of qualifying sites for Zns and Omega-max, exactly
  the number of qualifying sites for Wall's B and Q.
\<close>

lemma calc_ld_counter:
  fixes st :: "'a ldData_scheme"
  assumes "num_snps st = replicate (sm_npops st) 0" "i < sm_npops st"
  shows "min_snps (calc_ld st) = min_snps st \<and> output_opt (calc_ld st) = output_opt st
       \<and> sm_npops (calc_ld st) = sm_npops st
       \<and> (output_opt st \<noteq> 2 \<longrightarrow>
            num_snps (calc_ld st) ! i
              \<le> 1 + int (zns_qualifying (types st) (segsites st) (pop_mask st ! i)
                           (pop_nsmpl st ! i) (min_freq st)))
       \<and> (output_opt st = 2 \<longrightarrow>
            num_snps (calc_ld st) ! i
              = int (wall_qualifying (sm_n st) (types st) (segsites st) (pop_mask st ! i)))"
proof (cases "segsites st < 1")
  case True
  then have "calc_ld st = st"
    by (simp add: calc_ld_def calc_zns_def calc_omegamax_def calc_wall_def)
  moreover have "wall_qualifying (sm_n st) (types st) (segsites st) (pop_mask st ! i) = 0"
    using True by (simp add: wall_qualifying_def)
  ultimately show ?thesis
    using assms by simp
next
  case False
  have len: "i < length (num_snps st)" "i \<in> set [0..<sm_npops st]"
    using assms by simp_all
  consider (z) "output_opt st \<noteq> 1" "output_opt st \<noteq> 2" | (o) "output_opt st = 1"
    | (w) "output_opt st = 2"
    by blast
  then show ?thesis
  proof cases
    case z
    then have c: "calc_ld st = foldl calc_zns_step st [0..<sm_npops st]"
      using False by (simp add: calc_ld_def calc_zns_def)
    show ?thesis
      unfolding c using calc_zns_fold [of st "[0..<sm_npops st]"] len z
      by (simp add: ld_same_inputs_def)
  next
    case o
    then have c: "calc_ld st = foldl calc_omegamax_step st [0..<sm_npops st]"
      using False by (simp add: calc_ld_def calc_omegamax_def)
    show ?thesis
      unfolding c using calc_omegamax_fold [of st "[0..<sm_npops st]"] len o
      by (simp add: ld_same_inputs_def)
  next
    case w
    let ?w = "wall_scan (sm_n st) (sm_npops st) (pop_mask st) (types st) (segsites st) (num_snps st)"
    have c: "calc_ld st = foldl (calc_wall_stat ?w) (st\<lparr>num_snps := wall_snps ?w\<rparr>) [0..<sm_npops st]"
      using False w by (simp add: calc_ld_def calc_wall_def Let_def)
    have "wall_snps ?w ! i
            = num_snps st ! i + int (wall_qualifying (sm_n st) (types st) (segsites st) (pop_mask st ! i))"
      by (rule wall_scan_snps) (use assms len in simp_all)
    then have n: "wall_snps ?w ! i
            = int (wall_qualifying (sm_n st) (types st) (segsites st) (pop_mask st ! i))"
      using assms by simp
    show ?thesis
      unfolding c
      using calc_wall_stat_fold [of "st\<lparr>num_snps := wall_snps ?w\<rparr>" ?w "[0..<sm_npops st]"] n w
      by (simp add: ld_same_inputs_def)
  qed
qed

lemma all_NA_simps:
  "all_NA [NA]" "all_NA [NA, NA]" "\<not> all_NA [Number x]" "\<not> all_NA [Number x, Number y]"
  by (simp_all add: all_NA_def)

text \<open>
  Claim C5, as amended. For every window and population \<open>print_ld\<close> prints each of
  Zns, Omega-max and Wall's B and Q as \<open>NA\<close> exactly when the SNP counter \<open>num_snps\<close>
  of the population is below the threshold \<open>min_snps\<close> (an option of the command line,
  10 unless given). So a population with fewer than 2 qualifying SNPs gets \<open>NA\<close> for
  Zns and Omega-max whenever \<open>min_snps \<ge> 3\<close>, and for Wall's B and Q, whose counter
  is the number of qualifying sites, whenever \<open>min_snps \<ge> 2\<close>.
\<close>

theorem ld_window_NA:
  fixes t :: "'a ldData_scheme" and iupac iupac_rev masks nsmpl cols i
  defines "st \<equiv> ld_columns iupac iupac_rev (window_start masks nsmpl t) cols"
  defines "out \<equiv> ld_window iupac iupac_rev masks nsmpl t cols ! i"
  assumes "i < sm_npops t"
  shows "(all_NA (snd out) \<longleftrightarrow> fst out < min_snps t)
       \<and> (output_opt t \<noteq> 2 \<and> 3 \<le> min_snps t
            \<and> zns_qualifying (types st) (segsites st) (masks ! i) (nsmpl ! i) (min_freq t) < 2
          \<longrightarrow> all_NA (snd out))
       \<and> (output_opt t = 2 \<longrightarrow> fst out = int (wall_qualifying (sm_n t) (types st) (segsites st) (masks ! i)))
       \<and> (output_opt t = 2 \<and> 2 \<le> min_snps t
            \<and> wall_qualifying (sm_n t) (types st) (segsites st) (masks ! i) < 2
          \<longrightarrow> all_NA (snd out))"
proof -
  note k = ld_columns_keeps [of iupac iupac_rev "window_start masks nsmpl t" cols, folded st_def]
  note w = window_start_keeps [of masks nsmpl t]
  have z: "num_snps st = replicate (sm_npops st) 0"
    using k w by simp
  have i: "i < sm_npops st"
    using k w assms(3) by simp
  note c = calc_ld_counter [OF z i]
  have out: "out = print_ld_pop (calc_ld st) i"
    using c i by (simp add: out_def ld_window_def print_ld_def st_def)
  have f: "fst out = num_snps (calc_ld st) ! i"
    by (simp add: out print_ld_pop_def)
  have a: "all_NA (snd out) \<longleftrightarrow> fst out < min_snps t"
    using c k w by (auto simp: out print_ld_pop_def all_NA_simps)
  show ?thesis
    using a c k w unfolding f by auto
qed

text \<open>
  The example window has one qualifying site. With the default threshold
  \<open>min_snps = 10\<close> it is reported as \<open>NA\<close> for Zns and for Wall's B and Q.
\<close>

lemma ld_example_types:
  "types (ld_columns iupac_acgt iupac_rev_acgt (window_start [3] [2] ld_example)
       [(0, col_ref), (1, col_snp)]) = [1, 0, 0]"
  "segsites (ld_columns iupac_acgt iupac_rev_acgt (window_start [3] [2] ld_example)
       [(0, col_ref), (1, col_snp)]) = 1"
  "types (ld_columns iupac_acgt iupac_rev_acgt
       (window_start [3] [2] (ld_example\<lparr>output_opt := 2\<rparr>))
       [(0, col_ref), (1, col_snp)]) = [1, 0, 0]"
  "segsites (ld_columns iupac_acgt iupac_rev_acgt
       (window_start [3] [2] (ld_example\<lparr>output_opt := 2\<rparr>))
       [(0, col_ref), (1, col_snp)]) = 1"
  by code_simp+

lemma ld_example_qualifying:
  "zns_qualifying [1, 0, 0] 1 3 2 1 = 1" "wall_qualifying 2 [1, 0, 0] 1 3 = 1"
  by code_simp+

theorem ld_window_NA_witness:
  "(0 :: nat) < sm_npops ld_example
   \<and> output_opt ld_example \<noteq> 2 \<and> 3 \<le> min_snps ld_example
   \<and> zns_qualifying [1, 0, 0] 1 ([3] ! 0) ([2] ! 0) (min_freq ld_example) < 2
   \<and> fst (ld_window iupac_acgt iupac_rev_acgt [3] [2] ld_example
             [(0, col_ref), (1, col_snp)] ! 0) < min_snps ld_example
   \<and> all_NA (snd (ld_window iupac_acgt iupac_rev_acgt [3] [2] ld_example
             [(0, col_ref), (1, col_snp)] ! 0))
   \<and> output_opt (ld_example\<lparr>output_opt := 2\<rparr>) = 2
   \<and> 2 \<le> min_snps (ld_example\<lparr>output_opt := 2\<rparr>)
   \<and> wall_qualifying (sm_n (ld_example\<lparr>output_opt := 2\<rparr>)) [1, 0, 0] 1 ([3] ! 0) < 2
   \<and> fst (ld_window iupac_acgt iupac_rev_acgt [3] [2] (ld_example\<lparr>output_opt := 2\<rparr>)
             [(0, col_ref), (1, col_snp)] ! 0) = 1
   \<and> all_NA (snd (ld_window iupac_acgt iupac_rev_acgt [3] [2] (ld_example\<lparr>output_opt := 2\<rparr>)
             [(0, col_ref), (1, col_snp)] ! 0))"
proof -
  have h: "(0 :: nat) < sm_npops ld_example"
    "(0 :: nat) < sm_npops (ld_example\<lparr>output_opt := 2\<rparr>)"
    by (simp_all add: ld_example_def)
  note z = ld_window_NA [where t = ld_example and i = 0 and iupac = iupac_acgt
      and iupac_rev = iupac_rev_acgt and masks = "[3]" and nsmpl = "[2]"
      and cols = "[(0, col_ref), (1, col_snp)]", OF h(1), unfolded ld_example_types]
  note w = ld_window_NA [where t = "ld_example\<lparr>output_opt := 2\<rparr>" and i = 0
      and iupac = iupac_acgt and iupac_rev = iupac_rev_acgt and masks = "[3]"
      and nsmpl = "[2]" and cols = "[(0, col_ref), (1, col_snp)]", OF h(2),
      unfolded ld_example_types]
  have v: "output_opt ld_example \<noteq> 2" "3 \<le> min_snps ld_example"
    "min_freq ld_example = 1" "sm_n (ld_example\<lparr>output_opt := 2\<rparr>) = 2"
    "min_snps (ld_example\<lparr>output_opt := 2\<rparr>) = 10"
    by (simp_all add: ld_example_def)
  have q: "zns_qualifying [1, 0, 0] (Suc 0) 3 2 (Suc 0) = 1"
    "wall_qualifying 2 [1, 0, 0] (Suc 0) 3 = 1"
    using ld_example_qualifying by simp_all
  show ?thesis
    using z w h v by (auto simp: q)
qed

text \<open>
  Claim C5 as it stands fails for a threshold below 3. With \<open>min_snps = 1\<close> the
  example window, whose population has one qualifying site, is reported with the
  quotient 0/0 for Wall's B and the number 0 for Wall's Q, and with the number 0 for
  Omega-max; with \<open>min_snps = 0\<close> a window with no site at all is reported with the
  number 0 for Zns.
\<close>

theorem ld_window_one_snp_reported:
  "wall_qualifying 2 [1, 0, 0] 1 3 = 1
   \<and> zns_qualifying [1, 0, 0] 1 3 2 1 = 1
   \<and> ld_window iupac_acgt iupac_rev_acgt [3] [2] ld_example_wall [(0, col_ref), (1, col_snp)]
       = [(1, [Number NaN, Number (Fin 0)])]
   \<and> ld_window iupac_acgt iupac_rev_acgt [3] [2] (ld_example_wall\<lparr>output_opt := 1\<rparr>)
         [(0, col_ref), (1, col_snp)]
       = [(1, [Number (Fin 0)])]
   \<and> zns_qualifying [] 0 3 2 1 = 0
   \<and> ld_window iupac_acgt iupac_rev_acgt [3] [2] ld_example_zero [] = [(0, [Number (Fin 0)])]"
  by code_simp

section \<open>\<open>calc_sfs\<close>: populations with too few aligned sites\<close>

lemma calc_sfs_loop_None:
  "calc_sfs_loop None js = None"
  by (induction js) (simp_all add: calc_sfs_loop_def)

lemma calc_sfs_loop_Cons:
  "calc_sfs_loop (Some s) (j # js) = calc_sfs_loop (calc_sfs_pop s j) js"
  by (simp add: calc_sfs_loop_def)

lemma calc_sfs_loop_Nil:
  "calc_sfs_loop r [] = r"
  by (simp add: calc_sfs_loop_def)

lemma calc_sfs_as_loop:
  "calc_sfs t =
     calc_sfs_loop (Some (t\<lparr>ns := map (sfs_aligned t) [0..<sm_npops t]\<rparr>)) [0..<sm_npops t]"
proof -
  have "sfs_aligned t = (\<lambda>j. ns t ! j + count_aligned (pop_cov t) (num_sites t) j)"
    by (rule ext) (simp add: sfs_aligned_def)
  then show ?thesis
    by (simp add: calc_sfs_def calc_sfs_loop_def)
qed

text \<open>One population leaves the entries of the other populations alone.\<close>

lemma calc_sfs_pop_same:
  assumes "calc_sfs_pop s j = Some s'"
  shows "sfs_same s s'" and "k \<noteq> j \<Longrightarrow> td s' ! k = td s ! k \<and> fwh s' ! k = fwh s ! k"
  using assms
  by (auto simp: calc_sfs_pop_def sfs_same_def split: if_splits option.splits prod.splits)

text \<open>Below the threshold both statistics are set to NaN, and nothing can go wrong.\<close>

lemma calc_sfs_pop_below:
  assumes "ns s ! i < sites_threshold (beg s) (endp s) (min_sites s)"
  shows "calc_sfs_pop s i = Some (s\<lparr>td := (td s)[i := NaN], fwh := (fwh s)[i := NaN]\<rparr>)"
  using assms by (simp add: calc_sfs_pop_def)

lemma calc_sfs_loop_other:
  assumes "calc_sfs_loop (Some s) js = Some s'" "i \<notin> set js"
  shows "sfs_same s s' \<and> td s' ! i = td s ! i \<and> fwh s' ! i = fwh s ! i"
  using assms
proof (induction js arbitrary: s)
  case Nil
  then show ?case
    by (simp add: calc_sfs_loop_Nil sfs_same_def)
next
  case (Cons j js)
  obtain s1 where s1: "calc_sfs_pop s j = Some s1"
    using Cons.prems(1) unfolding calc_sfs_loop_Cons
    by (cases "calc_sfs_pop s j") (simp_all add: calc_sfs_loop_None)
  have r: "calc_sfs_loop (Some s1) js = Some s'"
    using Cons.prems(1) unfolding calc_sfs_loop_Cons s1 .
  have "i \<noteq> j" "i \<notin> set js"
    using Cons.prems(2) by simp_all
  then show ?case
    using Cons.IH [OF r] calc_sfs_pop_same(1) [OF s1] calc_sfs_pop_same(2) [OF s1, of i]
    by (simp add: sfs_same_def)
qed

lemma calc_sfs_loop_below:
  assumes "calc_sfs_loop (Some s) js = Some s'" "i \<in> set js" "distinct js"
    and "ns s ! i < sites_threshold (beg s) (endp s) (min_sites s)"
    and "i < length (td s)" "i < length (fwh s)"
  shows "sfs_same s s' \<and> td s' ! i = NaN \<and> fwh s' ! i = NaN"
  using assms
proof (induction js arbitrary: s)
  case Nil
  then show ?case
    by simp
next
  case (Cons j js)
  obtain s1 where s1: "calc_sfs_pop s j = Some s1"
    using Cons.prems(1) unfolding calc_sfs_loop_Cons
    by (cases "calc_sfs_pop s j") (simp_all add: calc_sfs_loop_None)
  have r: "calc_sfs_loop (Some s1) js = Some s'"
    using Cons.prems(1) unfolding calc_sfs_loop_Cons s1 .
  note same = calc_sfs_pop_same(1) [OF s1]
  show ?case
  proof (cases "i = j")
    case True
    then have "s1 = s\<lparr>td := (td s)[i := NaN], fwh := (fwh s)[i := NaN]\<rparr>"
      using calc_sfs_pop_below [OF Cons.prems(4)] s1 by simp
    then have n: "td s1 ! i = NaN" "fwh s1 ! i = NaN"
      using Cons.prems(5,6) by simp_all
    have "i \<notin> set js"
      using True Cons.prems(3) by simp
    then show ?thesis
      using calc_sfs_loop_other [OF r, of i] n same by (simp add: sfs_same_def)
  next
    case False
    then have i: "i \<in> set js" "distinct js"
      using Cons.prems(2,3) by simp_all
    have b: "ns s1 ! i < sites_threshold (beg s1) (endp s1) (min_sites s1)"
      "i < length (td s1)" "i < length (fwh s1)"
      using same Cons.prems(4,5,6) by (simp_all add: sfs_same_def)
    show ?thesis
      using Cons.IH [OF r i b] same by (simp add: sfs_same_def)
  qed
qed

text \<open>
  If every population is below the threshold, \<open>calc_sfs\<close> has a result: the conversion
  of a NaN to \<^verbatim>\<open>int\<close> is out of reach.
\<close>

lemma calc_sfs_loop_total:
  assumes "\<forall>j \<in> set js. ns s ! j < sites_threshold (beg s) (endp s) (min_sites s)"
  shows "\<exists>s'. calc_sfs_loop (Some s) js = Some s'"
  using assms
proof (induction js arbitrary: s)
  case Nil
  then show ?case
    by (simp add: calc_sfs_loop_Nil)
next
  case (Cons j js)
  let ?s1 = "s\<lparr>td := (td s)[j := NaN], fwh := (fwh s)[j := NaN]\<rparr>"
  have s1: "calc_sfs_pop s j = Some ?s1"
    using Cons.prems by (simp add: calc_sfs_pop_below)
  have "\<forall>k \<in> set js. ns ?s1 ! k < sites_threshold (beg ?s1) (endp ?s1) (min_sites ?s1)"
    using Cons.prems by simp
  then show ?case
    unfolding calc_sfs_loop_Cons s1 by (rule Cons.IH)
qed

text \<open>
  A population that passes the threshold in a window without a SNP of its own: the
  mean coverage is 0/0, and its conversion to \<^verbatim>\<open>int\<close> has no defined result.
\<close>

lemma sfs_stats_no_site:
  "segsites t = 0 \<Longrightarrow> sfs_stats t i = None"
  by (simp add: sfs_stats_def dinf_def)

text \<open>
  What the source does do: a population whose number of aligned sites is below the
  truncated product \<open>(end - beg) * min_sites\<close> is reported with \<open>NA\<close> for both
  statistics, in every run of \<open>calc_sfs\<close> that has a result.
\<close>

lemma calc_sfs_below_threshold:
  fixes t t' :: "'a sfsData_scheme"
  assumes "calc_sfs t = Some t'" and "i < sm_npops t"
    and "sm_npops t \<le> length (td t)" "sm_npops t \<le> length (fwh t)"
    and "sfs_aligned t i < sites_threshold (beg t) (endp t) (min_sites t)"
  shows "print_sfs t' ! i = (sfs_aligned t i, NA, NA)"
proof -
  let ?t0 = "t\<lparr>ns := map (sfs_aligned t) [0..<sm_npops t]\<rparr>"
  have r: "calc_sfs_loop (Some ?t0) [0..<sm_npops t] = Some t'"
    using assms(1) by (simp add: calc_sfs_as_loop)
  have b: "ns ?t0 ! i < sites_threshold (beg ?t0) (endp ?t0) (min_sites ?t0)"
    "i < length (td ?t0)" "i < length (fwh ?t0)"
    using assms(2-5) by simp_all
  have "i \<in> set [0..<sm_npops t]" "distinct [0..<sm_npops t]"
    using assms(2) by simp_all
  from calc_sfs_loop_below [OF r this b]
  have s: "sfs_same ?t0 t'" and n: "td t' ! i = NaN" "fwh t' ! i = NaN"
    by simp_all
  have "ns t' ! i = sfs_aligned t i" "sm_npops t' = sm_npops t"
    using s assms(2) by (simp_all add: sfs_same_def)
  then show ?thesis
    using n assms(2) by (simp add: print_sfs_def print_sfs_pop_def)
qed

subsection \<open>The example window\<close>

lemma sfs_example_fields:
  "sm_npops sfs_example = 2" "sm_n sfs_example = 6" "segsites sfs_example = 1"
  "beg sfs_example = 0" "endp sfs_example = 3" "min_sites sfs_example = 1 / 2"
  "td sfs_example = [Fin 0, Fin 0]" "fwh sfs_example = [Fin 0, Fin 0]"
  "num_snps sfs_example = [0, 0]" "ns sfs_example = [0, 0]"
  by (simp_all add: sfs_example_def sfs_tables_def Let_def)

lemma sfs_example_aligned:
  "sfs_aligned sfs_example 0 = 1" "sfs_aligned sfs_example 1 = 0"
  by code_simp+

lemma sfs_example_threshold:
  "sites_threshold 0 3 (1 / 2) = 1"
  by code_simp

lemma sfs_example_counted_fields:
  "sm_npops sfs_example_counted = 2" "sm_n sfs_example_counted = 6"
  "beg sfs_example_counted = 0" "endp sfs_example_counted = 3"
  "min_sites sfs_example_counted = 1 / 2"
  "td sfs_example_counted = [Fin 0, Fin 0]" "fwh sfs_example_counted = [Fin 0, Fin 0]"
  "num_snps sfs_example_counted = [0, 0]" "ns sfs_example_counted = [1, 0]"
  by (simp_all add: sfs_example_counted_def sfs_example_fields)

lemma sfs_example_sites:
  "foldl (sfs_site sfs_example_counted 0)
     (td sfs_example_counted ! 0, fwh sfs_example_counted ! 0, 0, 0)
     [0..<segsites sfs_example_counted]
   = (Fin 0, Fin 0, 4, 1)"
  by code_simp

lemma sfs_example_tables:
  "e1 sfs_example_counted ! 4 = 6 / 1089"
  "fwh_var sfs_example_counted 4 1 = Fin (2 / 33)"
  by code_simp+

lemma sfs_example_mean:
  "d2i (dadd (ddiv (Fin 4) (Fin 1)) (Fin (4999 / 10000))) = Some 4"
  by code_simp

lemma sfs_example_stats:
  "sfs_stats sfs_example_counted 0 = Some (1, Fin 0, Fin 0)"
proof -
  have "d2i (dadd (ddiv (Fin (real_of_int 4)) (Fin (real_of_int 1))) (Fin (4999 / 10000))) = Some 4"
    using sfs_example_mean by simp
  then show ?thesis
    unfolding sfs_stats_def sfs_example_sites
    by (simp add: sfs_example_counted_fields sfs_example_tables)
qed

lemma sfs_example_run:
  "calc_sfs sfs_example = Some sfs_example_result"
proof -
  have u: "[0..<2] = [0, 1]"
    by (simp add: upt_conv_Cons)
  have p0: "calc_sfs_pop sfs_example_counted 0
              = Some (sfs_example_counted\<lparr>num_snps := [1, 0]\<rparr>)"
    by (simp add: calc_sfs_pop_def sfs_example_counted_fields sfs_example_threshold
        sfs_example_stats)
  have p1: "calc_sfs_pop (sfs_example_counted\<lparr>num_snps := [1, 0]\<rparr>) 1 = Some sfs_example_result"
    by (simp add: calc_sfs_pop_def sfs_example_counted_fields sfs_example_threshold
        sfs_example_result_def)
  have a: "map (sfs_aligned sfs_example) [0, 1] = [1, 0]"
    using sfs_example_aligned by simp
  show ?thesis
    unfolding calc_sfs_as_loop sfs_example_fields u a
    unfolding sfs_example_counted_def [symmetric] calc_sfs_loop_Cons p0 p1 calc_sfs_loop_Nil
    by (rule refl)
qed

lemma sfs_example_printed:
  "print_sfs sfs_example_result = [(1, Number (Fin 0), Number (Fin 0)), (0, NA, NA)]"
proof -
  have u: "[0..<2] = [0, 1]"
    by (simp add: upt_conv_Cons)
  show ?thesis
    by (simp add: print_sfs_def print_sfs_pop_def sfs_example_result_def
        sfs_example_counted_fields u)
qed

text \<open>
  In the example window population 1 has no aligned site, below the threshold 1,
  and is reported with \<open>NA\<close> for both statistics.
\<close>

lemma calc_sfs_below_threshold_example:
  "calc_sfs sfs_example = Some sfs_example_result
   \<and> (1 :: nat) < sm_npops sfs_example
   \<and> sm_npops sfs_example \<le> length (td sfs_example)
   \<and> sm_npops sfs_example \<le> length (fwh sfs_example)
   \<and> sfs_aligned sfs_example 1
       < sites_threshold (beg sfs_example) (endp sfs_example) (min_sites sfs_example)
   \<and> print_sfs sfs_example_result ! 1 = (0, NA, NA)"
proof -
  have h: "(1 :: nat) < sm_npops sfs_example"
    "sm_npops sfs_example \<le> length (td sfs_example)"
    "sm_npops sfs_example \<le> length (fwh sfs_example)"
    "sfs_aligned sfs_example 1
       < sites_threshold (beg sfs_example) (endp sfs_example) (min_sites sfs_example)"
    using sfs_example_aligned
    by (simp_all add: sfs_example_fields sfs_example_threshold)
  have "print_sfs sfs_example_result ! 1 = (0, NA, NA)"
    using calc_sfs_below_threshold [OF sfs_example_run h]
    unfolding sfs_example_aligned .
  then show ?thesis
    using sfs_example_run h by simp
qed

text \<open>
  Claim C8 fails on the code. The usage text documents \<open>-k\<close> as the minimum proportion
  of sites covered in the window, \<open>0.5\<close> unless given, and the claim compares the
  number of aligned sites with \<open>min_sites\<close> times the window length. The source
  truncates that product to an integer before it compares. In the example window,
  of three positions and with the default \<open>min_sites\<close>, the product is 1.5 and the
  truncated threshold 1: population 0 has one aligned site of three, below 1.5, and
  is reported with the number 0 for both statistics instead of \<open>NA\<close>. With
  \<open>min_sites = 0.1\<close> the truncated threshold is 0: a population with no aligned site
  passes it, no SNP is counted for it, and \<open>calc_sfs\<close> converts the quotient 0/0 to
  \<^verbatim>\<open>int\<close> and indexes its tables with the outcome, instead of reporting \<open>NA\<close>.
\<close>

theorem calc_sfs_truncated_threshold:
  "real (sfs_aligned sfs_example 0)
     < min_sites sfs_example * real_of_int (endp sfs_example - beg sfs_example)
   \<and> (case calc_sfs sfs_example of None \<Rightarrow> [] | Some t' \<Rightarrow> print_sfs t')
       = [(1, Number (Fin 0), Number (Fin 0)), (0, NA, NA)]
   \<and> sfs_aligned sfs_example_empty 0 = 0
   \<and> calc_sfs sfs_example_empty = None"
proof -
  have a: "real (sfs_aligned sfs_example 0)
     < min_sites sfs_example * real_of_int (endp sfs_example - beg sfs_example)"
    using sfs_example_aligned by (simp add: sfs_example_fields)
  have u: "[0..<2] = [0, 1]"
    by (simp add: upt_conv_Cons)
  have b: "(case calc_sfs sfs_example of None \<Rightarrow> [] | Some t' \<Rightarrow> print_sfs t')
       = [(1, Number (Fin 0), Number (Fin 0)), (0, NA, NA)]"
    unfolding sfs_example_run by (simp add: sfs_example_printed)
  have f: "sm_npops sfs_example_empty = 2" "segsites sfs_example_empty = 0"
    "beg sfs_example_empty = 0" "endp sfs_example_empty = 3"
    "min_sites sfs_example_empty = 1 / 10"
    by (simp_all add: sfs_example_empty_def sfs_example_fields)
  have c: "sfs_aligned sfs_example_empty 0 = 0" "sfs_aligned sfs_example_empty 1 = 0"
    by code_simp+
  have t: "sites_threshold 0 3 (1 / 10) = 0"
    by code_simp
  have e: "calc_sfs_pop (sfs_example_empty\<lparr>ns := [0, 0]\<rparr>) 0 = None"
    by (simp add: calc_sfs_pop_def f t sfs_stats_no_site)
  have d: "calc_sfs sfs_example_empty = None"
    unfolding calc_sfs_as_loop f u
    using c e by (simp add: calc_sfs_loop_Cons calc_sfs_loop_None)
  show ?thesis
    using a b c(1) d by simp
qed

end
